theory Spec2Isabelle
  imports Main "HOL-Library.Multiset" "HOL-Library.Monad_Syntax"
begin

section \<open>The platform: ECMAScript time values and the Date object\<close>

text \<open>
  The calendar component of \<^verbatim>\<open>src/App.tsx\<close> computes with the built-in \<^verbatim>\<open>Date\<close> object.
  A valid Date is its time value, an integer number of milliseconds since
  1970-01-01T00:00:00Z. The abstract operations below follow ECMA-262, section "Date
  Objects": day number, year, month and date from a time value, \<^verbatim>\<open>MakeDay\<close>,
  \<^verbatim>\<open>MakeDate\<close>, local time.

  Two things are fixed by the model. The local time zone is one parameter \<open>tz\<close>, the
  offset of local time from UTC in minutes (330 for UTC+05:30), constant over time: there
  are no daylight-saving transitions. Time values are unbounded integers: the limit of
  8.64e15 milliseconds, beyond which a Date becomes invalid, is not modelled, so the Dates
  held in the view state are always valid. An invalid Date arises only from parsing a
  string and from building a Date out of \<^verbatim>\<open>NaN\<close> components; there it is the value
  \<open>None\<close>.
\<close>

definition msPerDay :: int where
  "msPerDay = 86400000"

definition msPerMinute :: int where
  "msPerMinute = 60000"

definition DayNumber :: "int \<Rightarrow> int" where
  \<comment> \<open>ECMA-262 \<^verbatim>\<open>Day(t)\<close>\<close>
  "DayNumber t = t div msPerDay"

definition TimeWithinDay :: "int \<Rightarrow> int" where
  "TimeWithinDay t = t mod msPerDay"

definition DaysInYear :: "int \<Rightarrow> int" where
  "DaysInYear y = (if y mod 4 \<noteq> 0 then 365 else if y mod 100 \<noteq> 0 then 366
                   else if y mod 400 \<noteq> 0 then 365 else 366)"

definition DayFromYear :: "int \<Rightarrow> int" where
  "DayFromYear y =
     365 * (y - 1970) + (y - 1969) div 4 - (y - 1901) div 100 + (y - 1601) div 400"

lemma div_succ:
  fixes a n :: int
  assumes "0 < n"
  shows "(a + 1) div n = a div n + (if (a + 1) mod n = 0 then 1 else 0)"
proof -
  define q where "q = a div n"
  define r where "r = a mod n"
  have a: "a = n * q + r" by (simp add: q_def r_def)
  have r: "0 \<le> r" "r < n" using assms by (simp_all add: r_def)
  show ?thesis
  proof (cases "r + 1 = n")
    case True
    have "a + 1 = n * (q + 1) + 0" using a True by (simp add: algebra_simps)
    then have "(a + 1) div n = q + 1" "(a + 1) mod n = 0"
      using assms by (metis int_div_pos_eq order_refl, metis int_mod_pos_eq order_refl)
    then show ?thesis by (simp add: q_def)
  next
    case False
    have "a + 1 = n * q + (r + 1)" using a by simp
    moreover have "0 \<le> r + 1" "r + 1 < n" using r False by simp_all
    ultimately have "(a + 1) div n = q" "(a + 1) mod n = r + 1"
      by (metis int_div_pos_eq, metis int_mod_pos_eq)
    then show ?thesis using r by (simp add: q_def)
  qed
qed

lemma mod_shift:
  fixes a n k :: int
  shows "(a - n * k) mod n = a mod n"
  by (metis mod_diff_right_eq mod_mult_self1_is_0 diff_zero)

lemma DayFromYear_step: "DayFromYear (y + 1) = DayFromYear y + DaysInYear y"
proof -
  define p4 where "p4 \<longleftrightarrow> y mod 4 = 0"
  define p100 where "p100 \<longleftrightarrow> y mod 100 = 0"
  define p400 where "p400 \<longleftrightarrow> y mod 400 = 0"
  define a where "a = (y - 1969) div 4"
  define b where "b = (y - 1901) div 100"
  define c where "c = (y - 1601) div 400"
  have m4: "(y - 1968) mod 4 = y mod 4"
    using mod_shift [of y 4 492] by simp
  have m100: "(y - 1900) mod 100 = y mod 100"
    using mod_shift [of y 100 19] by simp
  have m400: "(y - 1600) mod 400 = y mod 400"
    using mod_shift [of y 400 4] by simp
  have d4: "(y - 1968) div 4 = a + (if p4 then 1 else 0)"
    using div_succ [of 4 "y - 1969"] m4 by (simp add: a_def p4_def)
  have d100: "(y - 1900) div 100 = b + (if p100 then 1 else 0)"
    using div_succ [of 100 "y - 1901"] m100 by (simp add: b_def p100_def)
  have d400: "(y - 1600) div 400 = c + (if p400 then 1 else 0)"
    using div_succ [of 400 "y - 1601"] m400 by (simp add: c_def p400_def)
  have i1: "p4" if "p100"
  proof -
    from that obtain k where "y = 100 * k"
      by (auto simp: p100_def mod_eq_0_iff_dvd elim: dvdE)
    then have "y = 4 * (25 * k)" by simp
    then show ?thesis unfolding p4_def by (simp only: mod_mult_self1_is_0)
  qed
  have i2: "p100" if "p400"
  proof -
    from that obtain k where "y = 400 * k"
      by (auto simp: p400_def mod_eq_0_iff_dvd elim: dvdE)
    then have "y = 100 * (4 * k)" by simp
    then show ?thesis unfolding p100_def by (simp only: mod_mult_self1_is_0)
  qed
  have next_year: "DayFromYear (y + 1) =
      365 * (y - 1970) + 365 + (y - 1968) div 4 - (y - 1900) div 100 + (y - 1600) div 400"
    by (simp add: DayFromYear_def)
  have this_year: "DayFromYear y = 365 * (y - 1970) + a - b + c"
    by (simp only: DayFromYear_def a_def b_def c_def)
  have len: "DaysInYear y =
      (if \<not> p4 then 365 else if \<not> p100 then 366 else if \<not> p400 then 365 else 366)"
    by (simp only: DaysInYear_def p4_def p100_def p400_def)
  show ?thesis
    unfolding next_year this_year len d4 d100 d400 using i1 i2
    by (cases p4; cases p100; cases p400) simp_all
qed

lemma DaysInYear_pos: "365 \<le> DaysInYear y"
  by (simp add: DaysInYear_def)

lemma DayFromYear_less: "DayFromYear y < DayFromYear (y + 1)"
  using DaysInYear_pos [of y] by (simp add: DayFromYear_step)

lemma DayFromYear_mono: "y \<le> y' \<Longrightarrow> DayFromYear y \<le> DayFromYear y'"
proof (induction y' rule: int_ge_induct)
  case base
  show ?case by simp
next
  case (step i)
  then show ?case using DayFromYear_less [of i] by simp
qed

text \<open>
  \<^verbatim>\<open>YearFromTime(t)\<close> is the largest year whose first day is not after \<open>t\<close>. It is
  computed by a search from an estimate, first down, then up.
\<close>

function yearDown :: "int \<Rightarrow> int \<Rightarrow> int" where
  "yearDown d y = (if d < DayFromYear y then yearDown d (y - 1) else y)"
  by pat_completeness auto
termination
proof (relation "measure (\<lambda>(d, y). nat (DayFromYear y - d))")
  show "wf (measure (\<lambda>(d, y). nat (DayFromYear y - d)))" by simp
next
  fix d y :: int
  assume "d < DayFromYear y"
  moreover have "DayFromYear (y - 1) < DayFromYear y"
    using DayFromYear_less [of "y - 1"] by simp
  ultimately show "((d, y - 1), (d, y)) \<in> measure (\<lambda>(d, y). nat (DayFromYear y - d))"
    by simp
qed

function yearUp :: "int \<Rightarrow> int \<Rightarrow> int" where
  "yearUp d y = (if DayFromYear (y + 1) \<le> d then yearUp d (y + 1) else y)"
  by pat_completeness auto
termination
proof (relation "measure (\<lambda>(d, y). nat (d - DayFromYear (y + 1) + 1))")
  show "wf (measure (\<lambda>(d, y). nat (d - DayFromYear (y + 1) + 1)))" by simp
next
  fix d y :: int
  assume "DayFromYear (y + 1) \<le> d"
  moreover have "DayFromYear (y + 1) < DayFromYear (y + 1 + 1)"
    by (rule DayFromYear_less)
  ultimately show
    "((d, y + 1), (d, y)) \<in> measure (\<lambda>(d, y). nat (d - DayFromYear (y + 1) + 1))"
    by simp
qed

declare yearDown.simps [simp del]
declare yearUp.simps [simp del]

definition YearFromDay :: "int \<Rightarrow> int" where
  "YearFromDay d = yearUp d (yearDown d (1970 + d div 365))"

lemma yearDown_le: "DayFromYear (yearDown d y) \<le> d"
proof (induction d y rule: yearDown.induct)
  case (1 d y)
  show ?case
  proof (cases "d < DayFromYear y")
    case True
    with "1" show ?thesis by (subst yearDown.simps) simp
  next
    case False
    then show ?thesis by (subst yearDown.simps) simp
  qed
qed

lemma yearUp_bounds:
  "DayFromYear y \<le> d \<Longrightarrow>
   DayFromYear (yearUp d y) \<le> d \<and> d < DayFromYear (yearUp d y + 1)"
proof (induction d y rule: yearUp.induct)
  case (1 d y)
  show ?case
  proof (cases "DayFromYear (y + 1) \<le> d")
    case True
    with "1" show ?thesis by (subst (1 2) yearUp.simps) simp
  next
    case False
    with "1.prems" show ?thesis by (subst (1 2) yearUp.simps) simp
  qed
qed

lemma YearFromDay_bounds:
  "DayFromYear (YearFromDay d) \<le> d \<and> d < DayFromYear (YearFromDay d + 1)"
  unfolding YearFromDay_def by (rule yearUp_bounds) (rule yearDown_le)

lemma year_unique:
  assumes "DayFromYear y \<le> d" "d < DayFromYear (y + 1)"
    and "DayFromYear y' \<le> d" "d < DayFromYear (y' + 1)"
  shows "y = y'"
proof (rule ccontr)
  assume "y \<noteq> y'"
  then consider "y + 1 \<le> y'" | "y' + 1 \<le> y" by linarith
  then show False
  proof cases
    case 1
    from DayFromYear_mono [OF 1] assms show False by linarith
  next
    case 2
    from DayFromYear_mono [OF 2] assms show False by linarith
  qed
qed

lemma YearFromDay_eq:
  assumes "0 \<le> k" "k < DaysInYear y"
  shows "YearFromDay (DayFromYear y + k) = y"
proof -
  have "DayFromYear y \<le> DayFromYear y + k" using assms by simp
  moreover have "DayFromYear y + k < DayFromYear (y + 1)"
    using assms by (simp add: DayFromYear_step)
  ultimately show ?thesis
    using YearFromDay_bounds [of "DayFromYear y + k"] year_unique by blast
qed

text \<open>
  Months within a year: \<open>monthStart L m\<close> is the day within the year on which month
  \<open>m\<close> (0 to 11) starts, \<open>L\<close> being 1 in a leap year and 0 otherwise; index 12 is the
  length of the year.
\<close>

definition monthStart :: "int \<Rightarrow> int \<Rightarrow> int" where
  "monthStart L m =
     (if m = 0 then 0 else if m = 1 then 31 else if m = 2 then 59 + L
      else if m = 3 then 90 + L else if m = 4 then 120 + L else if m = 5 then 151 + L
      else if m = 6 then 181 + L else if m = 7 then 212 + L else if m = 8 then 243 + L
      else if m = 9 then 273 + L else if m = 10 then 304 + L else if m = 11 then 334 + L
      else 365 + L)"

definition monthOfDay :: "int \<Rightarrow> int \<Rightarrow> int" where
  "monthOfDay L d =
     (if d < 31 then 0 else if d < 59 + L then 1 else if d < 90 + L then 2
      else if d < 120 + L then 3 else if d < 151 + L then 4 else if d < 181 + L then 5
      else if d < 212 + L then 6 else if d < 243 + L then 7 else if d < 273 + L then 8
      else if d < 304 + L then 9 else if d < 334 + L then 10 else 11)"

definition leapFlag :: "int \<Rightarrow> int" where
  \<comment> \<open>\<^verbatim>\<open>InLeapYear\<close>, of a year\<close>
  "leapFlag y = (if DaysInYear y = 366 then 1 else 0)"

definition YearFromTime :: "int \<Rightarrow> int" where
  "YearFromTime t = YearFromDay (DayNumber t)"

definition DayWithinYear :: "int \<Rightarrow> int" where
  "DayWithinYear t = DayNumber t - DayFromYear (YearFromTime t)"

definition InLeapYear :: "int \<Rightarrow> int" where
  "InLeapYear t = leapFlag (YearFromTime t)"

definition MonthFromTime :: "int \<Rightarrow> int" where
  "MonthFromTime t = monthOfDay (InLeapYear t) (DayWithinYear t)"

definition DateFromTime :: "int \<Rightarrow> int" where
  "DateFromTime t = DayWithinYear t - monthStart (InLeapYear t) (MonthFromTime t) + 1"

definition WeekDay :: "int \<Rightarrow> int" where
  "WeekDay t = (DayNumber t + 4) mod 7"

definition MakeDay :: "int \<Rightarrow> int \<Rightarrow> int \<Rightarrow> int" where
  "MakeDay year month date =
     (let ym = year + month div 12; mn = month mod 12
      in DayFromYear ym + monthStart (leapFlag ym) mn + date - 1)"

definition MakeDate :: "int \<Rightarrow> int \<Rightarrow> int" where
  "MakeDate day time = day * msPerDay + time"

definition LocalTime :: "int \<Rightarrow> int \<Rightarrow> int" where
  "LocalTime tz t = t + tz * msPerMinute"

definition UTC :: "int \<Rightarrow> int \<Rightarrow> int" where
  "UTC tz t = t - tz * msPerMinute"

subsection \<open>Methods of a Date\<close>

definition getFullYear :: "int \<Rightarrow> int \<Rightarrow> int" where
  "getFullYear tz d = YearFromTime (LocalTime tz d)"

definition getMonth :: "int \<Rightarrow> int \<Rightarrow> int" where
  "getMonth tz d = MonthFromTime (LocalTime tz d)"

definition getDate :: "int \<Rightarrow> int \<Rightarrow> int" where
  "getDate tz d = DateFromTime (LocalTime tz d)"

definition getDay :: "int \<Rightarrow> int \<Rightarrow> int" where
  "getDay tz d = WeekDay (LocalTime tz d)"

definition setDate :: "int \<Rightarrow> int \<Rightarrow> int \<Rightarrow> int" where
  "setDate tz d dt =
     (let t = LocalTime tz d
      in UTC tz (MakeDate (MakeDay (YearFromTime t) (MonthFromTime t) dt) (TimeWithinDay t)))"

definition setMonth :: "int \<Rightarrow> int \<Rightarrow> int \<Rightarrow> int" where
  "setMonth tz d m =
     (let t = LocalTime tz d
      in UTC tz (MakeDate (MakeDay (YearFromTime t) m (DateFromTime t)) (TimeWithinDay t)))"

definition setFullYear :: "int \<Rightarrow> int \<Rightarrow> int \<Rightarrow> int" where
  "setFullYear tz d y =
     (let t = LocalTime tz d
      in UTC tz (MakeDate (MakeDay y (MonthFromTime t) (DateFromTime t)) (TimeWithinDay t)))"

definition effectiveYear :: "int \<Rightarrow> int" where
  \<comment> \<open>the Date constructor reads a year from 0 to 99 as 1900 + y\<close>
  "effectiveYear y = (if 0 \<le> y \<and> y \<le> 99 then 1900 + y else y)"

definition Date_ymd :: "int \<Rightarrow> int \<Rightarrow> int \<Rightarrow> int \<Rightarrow> int" where
  \<comment> \<open>\<^verbatim>\<open>new Date(y, m, d)\<close>: local midnight of the day\<close>
  "Date_ymd tz y m d = UTC tz (MakeDate (MakeDay (effectiveYear y) m d) 0)"

subsection \<open>Facts about the calendar arithmetic\<close>

lemma msPerDay_pos: "0 < msPerDay"
  by (simp add: msPerDay_def)

lemma DayNumber_MakeDate:
  "0 \<le> tw \<Longrightarrow> tw < msPerDay \<Longrightarrow> DayNumber (MakeDate n tw) = n"
  unfolding DayNumber_def MakeDate_def using msPerDay_pos
  by (metis add.commute div_mult_self1 div_pos_pos_trivial add_0 less_irrefl)

lemma TimeWithinDay_MakeDate:
  "0 \<le> tw \<Longrightarrow> tw < msPerDay \<Longrightarrow> TimeWithinDay (MakeDate n tw) = tw"
  unfolding TimeWithinDay_def MakeDate_def
  by (metis add.commute mod_mult_self1 mod_pos_pos_trivial)

lemma MakeDate_split: "MakeDate (DayNumber t) (TimeWithinDay t) = t"
  by (simp add: MakeDate_def DayNumber_def TimeWithinDay_def)

lemma TimeWithinDay_range: "0 \<le> TimeWithinDay t \<and> TimeWithinDay t < msPerDay"
  using msPerDay_pos by (simp add: TimeWithinDay_def)

lemma LocalTime_UTC [simp]: "LocalTime tz (UTC tz t) = t"
  by (simp add: LocalTime_def UTC_def)

lemma UTC_LocalTime [simp]: "UTC tz (LocalTime tz t) = t"
  by (simp add: LocalTime_def UTC_def)

lemma leapFlag_cases: "leapFlag y = 0 \<or> leapFlag y = 1"
  by (simp add: leapFlag_def)

lemma DaysInYear_leapFlag: "DaysInYear y = 365 + leapFlag y"
  by (simp add: leapFlag_def DaysInYear_def)

definition DaysInMonth :: "int \<Rightarrow> int \<Rightarrow> int" where
  \<comment> \<open>the length of month \<open>m\<close> (0 to 11) of a year with leap flag \<open>L\<close>\<close>
  "DaysInMonth L m = monthStart L (m + 1) - monthStart L m"

lemma month_cases:
  fixes m :: int
  assumes "0 \<le> m" "m < 12"
  obtains "m = 0" | "m = 1" | "m = 2" | "m = 3" | "m = 4" | "m = 5" | "m = 6"
    | "m = 7" | "m = 8" | "m = 9" | "m = 10" | "m = 11"
proof -
  have "m = 0 \<or> m = 1 \<or> m = 2 \<or> m = 3 \<or> m = 4 \<or> m = 5 \<or> m = 6
      \<or> m = 7 \<or> m = 8 \<or> m = 9 \<or> m = 10 \<or> m = 11"
    using assms by presburger
  then show thesis using that by blast
qed

lemma monthOfDay_monthStart:
  assumes "L = 0 \<or> L = 1" "0 \<le> m" "m < 12" "1 \<le> d" "d \<le> DaysInMonth L m"
  shows "monthOfDay L (monthStart L m + d - 1) = m"
  using assms(2,3)
proof (cases m rule: month_cases)
qed (use assms(1,4,5) in \<open>auto simp: monthOfDay_def monthStart_def DaysInMonth_def\<close>)

lemma monthStart_range:
  assumes "L = 0 \<or> L = 1" "0 \<le> m" "m < 12" "1 \<le> d" "d \<le> DaysInMonth L m"
  shows "0 \<le> monthStart L m + d - 1 \<and> monthStart L m + d - 1 < 365 + L"
  using assms(2,3)
proof (cases m rule: month_cases)
qed (use assms(1,4,5) in \<open>auto simp: monthStart_def DaysInMonth_def\<close>)

lemma MakeDay_in_range:
  assumes "0 \<le> m" "m < 12"
  shows "MakeDay y m d = DayFromYear y + (monthStart (leapFlag y) m + d - 1)"
proof -
  have "m div 12 = 0" "m mod 12 = m" using assms by simp_all
  then show ?thesis by (simp add: MakeDay_def)
qed

lemma fields_of_day:
  assumes m: "0 \<le> m" "m < 12" and d: "1 \<le> d" "d \<le> DaysInMonth (leapFlag y) m"
    and tw: "0 \<le> tw" "tw < msPerDay"
  shows "YearFromTime (MakeDate (MakeDay y m d) tw) = y"
    and "MonthFromTime (MakeDate (MakeDay y m d) tw) = m"
    and "DateFromTime (MakeDate (MakeDay y m d) tw) = d"
    and "DayNumber (MakeDate (MakeDay y m d) tw) = MakeDay y m d"
proof -
  define L where "L = leapFlag y"
  define k where "k = monthStart L m + d - 1"
  define t where "t = MakeDate (MakeDay y m d) tw"
  have L: "L = 0 \<or> L = 1" unfolding L_def by (rule leapFlag_cases)
  have k: "0 \<le> k" "k < DaysInYear y"
    using monthStart_range [OF L m, of d] d
    by (simp_all add: k_def L_def [symmetric] DaysInYear_leapFlag)
  have day: "DayNumber t = DayFromYear y + k"
    unfolding t_def using tw
    by (simp add: DayNumber_MakeDate MakeDay_in_range [OF m] k_def L_def)
  show year: "YearFromTime (MakeDate (MakeDay y m d) tw) = y"
    using YearFromDay_eq [OF k] day by (simp add: YearFromTime_def t_def)
  have dwy: "DayWithinYear t = k"
    using year day by (simp add: DayWithinYear_def t_def)
  have leap: "InLeapYear t = L"
    using year by (simp add: InLeapYear_def L_def t_def)
  have month: "MonthFromTime t = m"
    unfolding MonthFromTime_def dwy leap k_def
    using monthOfDay_monthStart [OF L m] d by (simp add: L_def)
  then show "MonthFromTime (MakeDate (MakeDay y m d) tw) = m"
    by (simp add: t_def)
  show "DateFromTime (MakeDate (MakeDay y m d) tw) = d"
    using month dwy leap by (simp add: DateFromTime_def t_def [symmetric] k_def)
  show "DayNumber (MakeDate (MakeDay y m d) tw) = MakeDay y m d"
    using tw by (simp add: DayNumber_MakeDate)
qed

lemma MakeDay_own_fields:
  "MakeDay (YearFromTime t) (MonthFromTime t) dt = DayNumber t - DateFromTime t + dt"
proof -
  have "0 \<le> MonthFromTime t" "MonthFromTime t < 12"
    by (simp_all add: MonthFromTime_def monthOfDay_def)
  from MakeDay_in_range [OF this] show ?thesis
    by (simp add: DateFromTime_def DayWithinYear_def InLeapYear_def)
qed

lemma DayNumber_setDate:
  "DayNumber (LocalTime tz (setDate tz d dt)) =
   DayNumber (LocalTime tz d) - getDate tz d + dt"
  using TimeWithinDay_range [of "LocalTime tz d"]
  by (simp add: setDate_def Let_def DayNumber_MakeDate MakeDay_own_fields getDate_def)

lemma TimeWithinDay_setDate:
  "TimeWithinDay (LocalTime tz (setDate tz d dt)) = TimeWithinDay (LocalTime tz d)"
  using TimeWithinDay_range [of "LocalTime tz d"]
  by (simp add: setDate_def Let_def TimeWithinDay_MakeDate)

lemma setDate_shift: "setDate tz d (getDate tz d + k) = d + k * msPerDay"
proof -
  define t where "t = LocalTime tz d"
  have "MakeDate (DayNumber t + k) (TimeWithinDay t) = t + k * msPerDay"
    using MakeDate_split [of t] by (simp add: MakeDate_def algebra_simps)
  then show ?thesis
    by (simp add: setDate_def Let_def MakeDay_own_fields getDate_def t_def [symmetric])
      (simp add: UTC_def LocalTime_def t_def)
qed

subsection \<open>Strings: \<^verbatim>\<open>split\<close>, digits, \<^verbatim>\<open>toISOString\<close>\<close>

text \<open>
  Strings are lists of characters. \<^verbatim>\<open>s.split(c)\<close> with a one-character separator
  cuts \<open>s\<close> at every occurrence of \<open>c\<close>; the result is never empty
  (\<^verbatim>\<open>"".split("T")\<close> is \<^verbatim>\<open>[""]\<close>), so element 0 always exists.
\<close>

fun split :: "char \<Rightarrow> string \<Rightarrow> string list" where
  "split c [] = [[]]"
| "split c (x # xs) =
     (if x = c then [] # split c xs
      else (case split c xs of [] \<Rightarrow> [[x]] | p # ps \<Rightarrow> (x # p) # ps))"

definition digitChar :: "int \<Rightarrow> char" where
  "digitChar n = ''0123456789'' ! nat n"

primrec padDigits :: "nat \<Rightarrow> int \<Rightarrow> string" where
  \<comment> \<open>the last \<open>n\<close> decimal digits of a non-negative number, zero-padded\<close>
  "padDigits 0 v = []"
| "padDigits (Suc n) v = padDigits n (v div 10) @ [digitChar (v mod 10)]"

definition HourFromTime :: "int \<Rightarrow> int" where
  "HourFromTime t = (t div 3600000) mod 24"

definition MinFromTime :: "int \<Rightarrow> int" where
  "MinFromTime t = (t div 60000) mod 60"

definition SecFromTime :: "int \<Rightarrow> int" where
  "SecFromTime t = (t div 1000) mod 60"

definition msFromTime :: "int \<Rightarrow> int" where
  "msFromTime t = t mod 1000"

definition isoYear :: "int \<Rightarrow> string" where
  \<comment> \<open>four digits from 0 to 9999, otherwise a sign and six digits\<close>
  "isoYear y =
     (if 0 \<le> y \<and> y \<le> 9999 then padDigits 4 y
      else (if y < 0 then CHR ''-'' else CHR ''+'') # padDigits 6 \<bar>y\<bar>)"

definition isoDate :: "int \<Rightarrow> string" where
  \<comment> \<open>the \<^verbatim>\<open>YYYY-MM-DD\<close> part of \<^verbatim>\<open>toISOString\<close>: the UTC calendar date\<close>
  "isoDate t =
     isoYear (YearFromTime t) @ ''-'' @ padDigits 2 (MonthFromTime t + 1) @ ''-''
       @ padDigits 2 (DateFromTime t)"

definition toISOString :: "int \<Rightarrow> string" where
  "toISOString t =
     isoDate t @ ''T'' @ padDigits 2 (HourFromTime t) @ '':'' @ padDigits 2 (MinFromTime t)
       @ '':'' @ padDigits 2 (SecFromTime t) @ ''.'' @ padDigits 3 (msFromTime t) @ ''Z''"

lemma split_nonempty: "split c s \<noteq> []"
  by (induction s) (auto split: list.splits)



lemma digitChar_digit:
  "0 \<le> n \<Longrightarrow> n < 10 \<Longrightarrow> digitChar n \<in> set ''0123456789''"
  unfolding digitChar_def by (rule nth_mem) simp

lemma padDigits_digits: "set (padDigits n v) \<subseteq> set ''0123456789''"
proof (induction n arbitrary: v)
  case 0
  show ?case by simp
next
  case (Suc n)
  have "digitChar (v mod 10) \<in> set ''0123456789''"
    by (rule digitChar_digit) simp_all
  with Suc show ?case by simp
qed

lemma length_padDigits [simp]: "length (padDigits n v) = n"
  by (induction n arbitrary: v) simp_all



lemma isoDate_nonempty: "isoDate t \<noteq> []"
  by (simp add: isoDate_def)

subsection \<open>Numbers and dates from strings\<close>

definition isDigit :: "char \<Rightarrow> bool" where
  "isDigit c \<longleftrightarrow> c \<in> set ''0123456789''"

definition digitValue :: "char \<Rightarrow> int" where
  "digitValue c = of_char c - 48"

definition decimalValue :: "string \<Rightarrow> int" where
  "decimalValue s = foldl (\<lambda>acc c. 10 * acc + digitValue c) 0 s"

text \<open>
  \<^verbatim>\<open>Number(s)\<close> on a string. The model covers the strings that a date key splits
  into: a run of decimal digits is its value and the empty string is 0. Every other string
  is taken as \<^verbatim>\<open>NaN\<close> (\<open>None\<close>); signs, fractions, exponents, radix prefixes and
  surrounding white space, which \<^verbatim>\<open>Number\<close> also reads, are outside the model.
\<close>

definition Number :: "string \<Rightarrow> int option" where
  "Number s = (if list_all isDigit s then Some (decimalValue s) else None)"

fun readDigits :: "nat \<Rightarrow> int \<Rightarrow> string \<Rightarrow> (int \<times> string) option" where
  \<comment> \<open>exactly \<open>n\<close> digits, then the rest\<close>
  "readDigits 0 acc s = Some (acc, s)"
| "readDigits (Suc n) acc [] = None"
| "readDigits (Suc n) acc (c # s) =
     (if isDigit c then readDigits n (10 * acc + digitValue c) s else None)"

definition starts :: "char \<Rightarrow> string \<Rightarrow> bool" where
  "starts c s \<longleftrightarrow> (case s of [] \<Rightarrow> False | x # _ \<Rightarrow> x = c)"

definition expect :: "char \<Rightarrow> string \<Rightarrow> string option" where
  "expect c s = (if starts c s then Some (tl s) else None)"

text \<open>
  \<^verbatim>\<open>Date.parse\<close>, which \<^verbatim>\<open>new Date(s)\<close> applies to a string, belongs to the engine:
  the standard fixes its result only on its own date-time string format and leaves every
  other string to the implementation. In the model the engine's parser is therefore a
  parameter \<open>parse\<close> of everything that parses a due date (\<open>None\<close> is \<^verbatim>\<open>NaN\<close>, an
  invalid Date), and what is proved of the Schedule view holds for every parser.

  \<open>parseISOFormat\<close> below is the standard's format and nothing more; the concrete
  instances are evaluated with it as the parser: \<^verbatim>\<open>YYYY\<close>, \<^verbatim>\<open>YYYY-MM\<close> or \<^verbatim>\<open>YYYY-MM-DD\<close>, then
  optionally \<^verbatim>\<open>T\<close> with \<^verbatim>\<open>HH:mm\<close>, \<^verbatim>\<open>HH:mm:ss\<close> or \<^verbatim>\<open>HH:mm:ss.sss\<close>, then
  optionally \<^verbatim>\<open>Z\<close> or \<^verbatim>\<open>+HH:mm\<close> or \<^verbatim>\<open>-HH:mm\<close>. Without an offset a date-only form
  is UTC and a date-time form is local time. On every other string (other formats,
  six-digit years, a day beyond the length of its month), where engines differ, it gives
  \<open>None\<close>.
\<close>

definition parseYMD :: "string \<Rightarrow> ((int \<times> int \<times> int) \<times> string) option" where
  "parseYMD s = do {
     (y, r1) \<leftarrow> readDigits 4 0 s;
     if starts CHR ''-'' r1 then do {
       (m, r2) \<leftarrow> readDigits 2 0 (tl r1);
       if starts CHR ''-'' r2 then do {
         (d, r3) \<leftarrow> readDigits 2 0 (tl r2);
         Some ((y, m, d), r3)
       } else Some ((y, m, 1), r2)
     } else Some ((y, 1, 1), r1)
   }"

definition parseHMS :: "string \<Rightarrow> ((int \<times> int \<times> int \<times> int) \<times> string) option" where
  "parseHMS s = do {
     (h, r1) \<leftarrow> readDigits 2 0 s;
     r1' \<leftarrow> expect CHR '':'' r1;
     (mi, r2) \<leftarrow> readDigits 2 0 r1';
     if starts CHR '':'' r2 then do {
       (sec, r3) \<leftarrow> readDigits 2 0 (tl r2);
       if starts CHR ''.'' r3 then do {
         (ms, r4) \<leftarrow> readDigits 3 0 (tl r3);
         Some ((h, mi, sec, ms), r4)
       } else Some ((h, mi, sec, 0), r3)
     } else Some ((h, mi, 0, 0), r2)
   }"

definition parseOffset :: "string \<Rightarrow> int option option" where
  \<comment> \<open>the rest after the time: nothing (local time), \<^verbatim>\<open>Z\<close>, or a signed offset in minutes\<close>
  "parseOffset s =
     (if s = [] then Some None
      else if s = ''Z'' then Some (Some 0)
      else if starts CHR ''+'' s \<or> starts CHR ''-'' s then do {
        (h, r1) \<leftarrow> readDigits 2 0 (tl s);
        r1' \<leftarrow> expect CHR '':'' r1;
        (mi, r2) \<leftarrow> readDigits 2 0 r1';
        if r2 = [] \<and> h \<le> 23 \<and> mi \<le> 59
        then Some (Some ((if starts CHR ''+'' s then 1 else - 1) * (h * 60 + mi)))
        else None
      } else None)"

definition MakeTime :: "int \<Rightarrow> int \<Rightarrow> int \<Rightarrow> int \<Rightarrow> int" where
  "MakeTime h mi sec ms = h * 3600000 + mi * 60000 + sec * 1000 + ms"

definition parseISOFormat :: "int \<Rightarrow> string \<Rightarrow> int option" where
  "parseISOFormat tz s = do {
     ((y, m, d), r) \<leftarrow> parseYMD s;
     if \<not> (1 \<le> m \<and> m \<le> 12 \<and> 1 \<le> d \<and> d \<le> DaysInMonth (leapFlag y) (m - 1)) then None
     else if r = [] then Some (MakeDate (MakeDay y (m - 1) d) 0)
     else if starts CHR ''T'' r then do {
       ((h, mi, sec, ms), r') \<leftarrow> parseHMS (tl r);
       off \<leftarrow> parseOffset r';
       if \<not> (mi \<le> 59 \<and> sec \<le> 59 \<and> (h \<le> 23 \<or> (h = 24 \<and> mi = 0 \<and> sec = 0 \<and> ms = 0)))
       then None
       else (let t = MakeDate (MakeDay y (m - 1) d) (MakeTime h mi sec ms)
             in Some (case off of None \<Rightarrow> UTC tz t | Some mins \<Rightarrow> t - mins * msPerMinute))
     } else None
   }"

section \<open>The data model (\<^verbatim>\<open>src/types.ts\<close>)\<close>

datatype Priority = LOW | MEDIUM | HIGH | URGENT

datatype TaskStatus = TODO | IN_PROGRESS | DONE

datatype Recurrence = NONE | DAILY | WEEKLY | MONTHLY

record Task =
  task_id :: string
  title :: string
  description :: "string option"
  dueDate :: "string option"
  startTime :: "string option"
  endTime :: "string option"
  priority :: Priority
  status :: TaskStatus
  category :: string
  tags :: "string list"
  recurrence :: Recurrence
  createdAt :: int

record Category =
  cat_id :: string
  name :: string
  color :: string

section \<open>The calendar component (\<^verbatim>\<open>CalendarView\<close> in \<^verbatim>\<open>src/App.tsx\<close>)\<close>

datatype ViewMode = Day | Week | Month | Year | Schedule

datatype Direction = Prev | Next

text \<open>The component's state: the two \<^verbatim>\<open>useState\<close> cells.\<close>

record ViewState =
  currentDate :: int
  viewMode :: ViewMode

subsection \<open>Navigation\<close>

definition navigate :: "int \<Rightarrow> Direction \<Rightarrow> ViewState \<Rightarrow> ViewState" where
  "navigate tz direction s =
     (let newDate = currentDate s;
          offset = (if direction = Next then 1 else - 1);
          newDate' = (case viewMode s of
              Day \<Rightarrow> setDate tz newDate (getDate tz newDate + offset)
            | Week \<Rightarrow> setDate tz newDate (getDate tz newDate + offset * 7)
            | Month \<Rightarrow> setMonth tz newDate (getMonth tz newDate + offset)
            | Year \<Rightarrow> setFullYear tz newDate (getFullYear tz newDate + offset)
            | Schedule \<Rightarrow> setMonth tz newDate (getMonth tz newDate + offset))
      in s\<lparr>currentDate := newDate'\<rparr>)"


subsection \<open>Helpers\<close>

definition truthy :: "string option \<Rightarrow> bool" where
  \<comment> \<open>an optional string in a condition: \<^verbatim>\<open>undefined\<close> and \<^verbatim>\<open>""\<close> are falsy\<close>
  "truthy v = (case v of None \<Rightarrow> False | Some s \<Rightarrow> s \<noteq> [])"

definition isSameDate :: "int \<Rightarrow> int \<Rightarrow> int \<Rightarrow> bool" where
  "isSameDate tz date1 date2 \<longleftrightarrow>
     getDate tz date1 = getDate tz date2 \<and>
     getMonth tz date1 = getMonth tz date2 \<and>
     getFullYear tz date1 = getFullYear tz date2"

text \<open>
  \<^verbatim>\<open>getTasksForDate\<close> also builds \<^verbatim>\<open>new Date(task.dueDate)\<close> and reads its year, month and
  date into \<^verbatim>\<open>tY\<close>, \<^verbatim>\<open>tM\<close>, \<^verbatim>\<open>tD\<close>. These are never used, and neither the
  constructor nor the getters throw on an unparsable string, so they leave no trace here.
\<close>

definition getTasksForDate :: "Task list \<Rightarrow> int \<Rightarrow> Task list" where
  "getTasksForDate tasks date =
     filter (\<lambda>task.
        case dueDate task of
          None \<Rightarrow> False
        | Some due \<Rightarrow>
            if due = [] then False
            else (let targetISO = hd (split CHR ''T'' (toISOString date));
                      taskISO = hd (split CHR ''T'' due)
                  in targetISO = taskISO)) tasks"

subsection \<open>Day, week, month and year views\<close>

text \<open>
  The renderers return markup. The model keeps what the markup is built from: the cells in
  order, each with its date, its highlight flag and its task list. \<open>now\<close> stands for the
  clock read by \<^verbatim>\<open>new Date()\<close>.
\<close>

record DayView =
  tasksForDay :: "Task list"
  dayIsToday :: bool

definition renderDayView :: "int \<Rightarrow> int \<Rightarrow> Task list \<Rightarrow> int \<Rightarrow> DayView" where
  "renderDayView tz now tasks cur =
     \<lparr>tasksForDay = getTasksForDate tasks cur, dayIsToday = isSameDate tz now cur\<rparr>"

definition weekDays :: "int \<Rightarrow> int \<Rightarrow> int list" where
  "weekDays tz cur =
     (let day = getDay tz cur;
          startOfWeek = setDate tz cur (getDate tz cur - day)
      in map (\<lambda>i. setDate tz startOfWeek (getDate tz startOfWeek + i)) [0..6])"

record WeekColumn =
  columnDate :: int
  columnIsToday :: bool
  dayTasks :: "Task list"

definition renderWeekView :: "int \<Rightarrow> int \<Rightarrow> Task list \<Rightarrow> int \<Rightarrow> WeekColumn list" where
  "renderWeekView tz now tasks cur =
     map (\<lambda>date. \<lparr>columnDate = date, columnIsToday = isSameDate tz now date,
                    dayTasks = getTasksForDate tasks date\<rparr>) (weekDays tz cur)"

datatype Cell =
    EmptyCell int
  | DayCell (cellDay: int) (cellDate: int) (cellIsToday: bool) (daysTasks: "Task list")

definition daysInMonthOf :: "int \<Rightarrow> int \<Rightarrow> int \<Rightarrow> int" where
  \<comment> \<open>\<^verbatim>\<open>new Date(year, month + 1, 0).getDate()\<close>\<close>
  "daysInMonthOf tz year month = getDate tz (Date_ymd tz year (month + 1) 0)"

definition firstDayOf :: "int \<Rightarrow> int \<Rightarrow> int \<Rightarrow> int" where
  \<comment> \<open>\<^verbatim>\<open>new Date(year, month, 1).getDay()\<close>\<close>
  "firstDayOf tz year month = getDay tz (Date_ymd tz year month 1)"

definition renderMonthView :: "int \<Rightarrow> int \<Rightarrow> Task list \<Rightarrow> int \<Rightarrow> Cell list" where
  "renderMonthView tz now tasks cur =
     (let daysInMonth = daysInMonthOf tz (getFullYear tz cur) (getMonth tz cur);
          firstDay = firstDayOf tz (getFullYear tz cur) (getMonth tz cur)
      in map EmptyCell [0..firstDay - 1]
         @ map (\<lambda>day.
              let date = Date_ymd tz (getFullYear tz cur) (getMonth tz cur) day
              in DayCell day date (isSameDate tz now date) (getTasksForDate tasks date))
             [1..daysInMonth])"

datatype MiniCell =
    PadCell int
  | MiniDay (miniDay: int) (miniDate: int) (hasTasks: bool) (miniIsToday: bool)

definition miniCells :: "int \<Rightarrow> int \<Rightarrow> Task list \<Rightarrow> int \<Rightarrow> int \<Rightarrow> MiniCell list" where
  "miniCells tz now tasks year monthIndex =
     (let daysInMonth = daysInMonthOf tz year monthIndex;
          firstDay = firstDayOf tz year monthIndex
      in map PadCell [0..firstDay - 1]
         @ map (\<lambda>d.
              let date = Date_ymd tz year monthIndex d
              in MiniDay d date (length (getTasksForDate tasks date) > 0)
                   (isSameDate tz now date))
             [1..daysInMonth])"

definition renderYearView :: "int \<Rightarrow> int \<Rightarrow> Task list \<Rightarrow> int \<Rightarrow> MiniCell list list" where
  "renderYearView tz now tasks cur =
     (let year = getFullYear tz cur
      in map (\<lambda>monthIndex. miniCells tz now tasks year monthIndex) [0..11])"

subsection \<open>Events\<close>

text \<open>
  Every handler the component installs. The parent's callbacks \<^verbatim>\<open>onSelectDate\<close> and
  \<^verbatim>\<open>onSelectTask\<close> open the task form and do not reach this component's state; the
  model returns them beside the new state.
\<close>

datatype Event =
    NavigateClick Direction
  | TodayClick
  | ViewSwitchClick ViewMode
  | YearDayClick int
  | DayAddTaskClick
  | WeekColumnClick int
  | MonthCellClick int
  | TaskChipClick Task

datatype Callback = onSelectDate int | onSelectTask Task

definition handleEvent ::
  "int \<Rightarrow> int \<Rightarrow> Event \<Rightarrow> ViewState \<Rightarrow> ViewState \<times> Callback option" where
  "handleEvent tz now e s =
     (case e of
        NavigateClick direction \<Rightarrow> (navigate tz direction s, None)
      | TodayClick \<Rightarrow> (s\<lparr>currentDate := now\<rparr>, None)
      | ViewSwitchClick v \<Rightarrow> (s\<lparr>viewMode := v\<rparr>, None)
      | YearDayClick date \<Rightarrow> (s\<lparr>currentDate := date, viewMode := Day\<rparr>, None)
      | DayAddTaskClick \<Rightarrow> (s, Some (onSelectDate (currentDate s)))
      | WeekColumnClick date \<Rightarrow> (s, Some (onSelectDate date))
      | MonthCellClick date \<Rightarrow> (s, Some (onSelectDate date))
      | TaskChipClick task \<Rightarrow> (s, Some (onSelectTask task)))"

subsection \<open>Schedule view\<close>

text \<open>
  \<^verbatim>\<open>Array.prototype.sort\<close> with a comparison function is stable. The comparator here is
  the difference of the two time values; it is \<^verbatim>\<open>NaN\<close> as soon as one due date does not
  parse, and \<^verbatim>\<open>sort\<close> reads \<^verbatim>\<open>NaN\<close> as 0. The model sorts by stable insertion. When
  every due date parses the comparator is consistent and every stable sort gives this
  order; with unparsable dates the standard leaves the order to the engine, and the model
  then describes one possible engine.
\<close>

definition dueTime :: "(string \<Rightarrow> int option) \<Rightarrow> Task \<Rightarrow> int option" where
  \<comment> \<open>\<^verbatim>\<open>new Date(t.dueDate!).getTime()\<close>, with the engine's parser\<close>
  "dueTime parse t = (case dueDate t of None \<Rightarrow> None | Some due \<Rightarrow> parse due)"

definition compareDue :: "(string \<Rightarrow> int option) \<Rightarrow> Task \<Rightarrow> Task \<Rightarrow> int" where
  "compareDue parse a b =
     (case (dueTime parse a, dueTime parse b) of
        (Some x, Some y) \<Rightarrow> x - y
      | _ \<Rightarrow> 0)"

fun insertBy :: "('a \<Rightarrow> 'a \<Rightarrow> int) \<Rightarrow> 'a \<Rightarrow> 'a list \<Rightarrow> 'a list" where
  "insertBy cmp x [] = [x]"
| "insertBy cmp x (y # ys) = (if cmp x y \<le> 0 then x # y # ys else y # insertBy cmp x ys)"

definition sortBy :: "('a \<Rightarrow> 'a \<Rightarrow> int) \<Rightarrow> 'a list \<Rightarrow> 'a list" where
  "sortBy cmp xs = foldr (insertBy cmp) xs []"

definition sortedTasks :: "(string \<Rightarrow> int option) \<Rightarrow> Task list \<Rightarrow> Task list" where
  "sortedTasks parse tasks = sortBy (compareDue parse) (filter (\<lambda>t. truthy (dueDate t)) tasks)"

text \<open>
  \<^verbatim>\<open>grouped\<close> is a plain object used as a dictionary. Its own properties are kept in
  creation order. A key that is not an own property is looked up in
  \<^verbatim>\<open>Object.prototype\<close>: for the names below \<^verbatim>\<open>grouped[key]\<close> is then a truthy value
  without a \<^verbatim>\<open>push\<close> method, and \<^verbatim>\<open>grouped[key].push(t)\<close> throws a
  \<^verbatim>\<open>TypeError\<close>.
\<close>

datatype error = TypeError

definition ObjectPrototypeKeys :: "string list" where
  "ObjectPrototypeKeys =
     [''constructor'', ''hasOwnProperty'', ''isPrototypeOf'', ''propertyIsEnumerable'',
      ''toLocaleString'', ''toString'', ''valueOf'', ''__proto__'',
      ''__defineGetter__'', ''__defineSetter__'', ''__lookupGetter__'',
      ''__lookupSetter__'']"

fun push :: "string \<Rightarrow> Task \<Rightarrow> (string \<times> Task list) list \<Rightarrow> (string \<times> Task list) list" where
  \<comment> \<open>\<^verbatim>\<open>grouped[key].push(t)\<close> for an own property \<open>key\<close>\<close>
  "push key t [] = []"
| "push key t ((k, ts) # g) = (if k = key then (k, ts @ [t]) # g else (k, ts) # push key t g)"

definition groupTask ::
  "(string \<times> Task list) list \<Rightarrow> Task \<Rightarrow> error + (string \<times> Task list) list" where
  "groupTask grouped t =
     (if \<not> truthy (dueDate t) then Inr grouped
      else (let key = hd (split CHR ''T'' (case dueDate t of None \<Rightarrow> [] | Some due \<Rightarrow> due))
            in if key \<in> set (map fst grouped) then Inr (push key t grouped)
               else if key \<in> set ObjectPrototypeKeys then Inl TypeError
               else Inr (push key t (grouped @ [(key, [])]))))"

fun groupAll ::
  "(string \<times> Task list) list \<Rightarrow> Task list \<Rightarrow> error + (string \<times> Task list) list" where
  \<comment> \<open>the \<^verbatim>\<open>forEach\<close> over the sorted tasks\<close>
  "groupAll grouped [] = Inr grouped"
| "groupAll grouped (t # ts) =
     (case groupTask grouped t of Inl e \<Rightarrow> Inl e | Inr grouped' \<Rightarrow> groupAll grouped' ts)"

definition bucketKey :: "Task \<Rightarrow> string" where
  \<comment> \<open>\<^verbatim>\<open>t.dueDate.split('T')[0]\<close>, the text of the due date before its first \<^verbatim>\<open>T\<close>\<close>
  "bucketKey t = hd (split CHR ''T'' (case dueDate t of None \<Rightarrow> [] | Some due \<Rightarrow> due))"

fun firstOccurrences :: "'a list \<Rightarrow> 'a list" where
  \<comment> \<open>the distinct elements of a list, in the order in which they first occur\<close>
  "firstOccurrences [] = []"
| "firstOccurrences (x # xs) = x # filter (\<lambda>y. y \<noteq> x) (firstOccurrences xs)"

text \<open>
  \<^verbatim>\<open>Object.keys\<close> lists first the keys that are array indices (canonical decimal
  numerals below \<open>2^32 - 1\<close>) in ascending numeric order, then the other keys in creation
  order.
\<close>

definition isArrayIndex :: "string \<Rightarrow> bool" where
  "isArrayIndex k \<longleftrightarrow>
     k \<noteq> [] \<and> list_all isDigit k \<and> (k = ''0'' \<or> \<not> starts CHR ''0'' k)
       \<and> decimalValue k < 4294967295"

definition Object_keys :: "(string \<times> 'a) list \<Rightarrow> string list" where
  "Object_keys obj =
     sort_key decimalValue (filter isArrayIndex (map fst obj))
       @ filter (\<lambda>k. \<not> isArrayIndex k) (map fst obj)"

definition displayDateOf :: "int \<Rightarrow> string \<Rightarrow> int option" where
  \<comment> \<open>\<^verbatim>\<open>const [y, m, d] = dateStr.split('-').map(Number); new Date(y, m-1, d)\<close>\<close>
  "displayDateOf tz dateStr =
     (case map Number (split CHR ''-'' dateStr) of
        Some y # Some m # Some d # _ \<Rightarrow> Some (Date_ymd tz y (m - 1) d)
      | _ \<Rightarrow> None)"

definition glookup :: "(string \<times> Task list) list \<Rightarrow> string \<Rightarrow> Task list" where
  \<comment> \<open>\<^verbatim>\<open>grouped[key]\<close> for a key that \<^verbatim>\<open>Object.keys\<close> listed, hence an own property\<close>
  "glookup g k = (case map_of g k of None \<Rightarrow> [] | Some ts \<Rightarrow> ts)"

record ScheduleGroup =
  dateStr :: string
  displayDate :: "int option"
  isPast :: bool
  groupTasks :: "Task list"

definition renderScheduleView ::
  "(string \<Rightarrow> int option) \<Rightarrow> int \<Rightarrow> int \<Rightarrow> Task list \<Rightarrow> error + ScheduleGroup list" where
  "renderScheduleView parse tz now tasks =
     (let today = UTC tz (MakeDate (DayNumber (LocalTime tz now)) 0)
      in case groupAll [] (sortedTasks parse tasks) of
           Inl e \<Rightarrow> Inl e
         | Inr grouped \<Rightarrow>
             Inr (map (\<lambda>key.
                    \<lparr>dateStr = key,
                     displayDate = displayDateOf tz key,
                     isPast = (case displayDateOf tz key of
                                 None \<Rightarrow> False | Some t \<Rightarrow> t < today),
                     groupTasks = glookup grouped key\<rparr>)
                  (Object_keys grouped)))"

section \<open>Adding a task (\<^verbatim>\<open>handleAddTask\<close> in \<^verbatim>\<open>App\<close>)\<close>

text \<open>
  \<^verbatim>\<open>Partial<Task>\<close>: every field of a task, each optional. \<open>uuid\<close> stands for
  \<^verbatim>\<open>crypto.randomUUID()\<close> and \<open>now\<close> for \<^verbatim>\<open>Date.now()\<close>. Reading
  \<^verbatim>\<open>categories[0].name\<close> throws when there is no category; the expression is only
  evaluated when the input has no category of its own.
\<close>

record PartialTask =
  p_id :: "string option"
  p_title :: "string option"
  p_description :: "string option"
  p_dueDate :: "string option"
  p_startTime :: "string option"
  p_endTime :: "string option"
  p_priority :: "Priority option"
  p_status :: "TaskStatus option"
  p_category :: "string option"
  p_tags :: "string list option"
  p_recurrence :: "Recurrence option"
  p_createdAt :: "int option"

definition orString :: "string option \<Rightarrow> string \<Rightarrow> string" where
  \<comment> \<open>\<^verbatim>\<open>v || dflt\<close> on an optional string\<close>
  "orString v dflt = (case v of None \<Rightarrow> dflt | Some s \<Rightarrow> if s = [] then dflt else s)"

definition handleAddTask ::
  "string \<Rightarrow> int \<Rightarrow> Category list \<Rightarrow> PartialTask \<Rightarrow> Task list \<Rightarrow> error + Task list" where
  "handleAddTask uuid now categories newTask tasks =
     (case (if truthy (p_category newTask) then Inr (orString (p_category newTask) [])
            else (case categories of [] \<Rightarrow> Inl TypeError | c # _ \<Rightarrow> Inr (name c))) of
        Inl e \<Rightarrow> Inl e
      | Inr cat \<Rightarrow>
          Inr (\<lparr>task_id = uuid,
                title = orString (p_title newTask) ''Untitled Task'',
                description = Some (orString (p_description newTask) []),
                dueDate = Some (orString (p_dueDate newTask) []),
                startTime = None,
                endTime = None,
                priority = (case p_priority newTask of None \<Rightarrow> MEDIUM | Some p \<Rightarrow> p),
                status = TODO,
                category = cat,
                tags = (case p_tags newTask of None \<Rightarrow> [] | Some ts \<Rightarrow> ts),
                recurrence = (case p_recurrence newTask of None \<Rightarrow> NONE | Some r \<Rightarrow> r),
                createdAt = now\<rparr> # tasks))"

section \<open>Example data\<close>

text \<open>A task with a given id and due date, used by the concrete instances below.\<close>

definition exampleTask :: "string \<Rightarrow> string \<Rightarrow> Task" where
  "exampleTask i due =
     \<lparr>task_id = i, title = i, description = None, dueDate = Some due, startTime = None,
      endTime = None, priority = MEDIUM, status = TODO, category = ''Work'', tags = [],
      recurrence = NONE, createdAt = 0\<rparr>"

definition exampleTasks :: "Task list" where
  "exampleTasks =
     [exampleTask ''A'' ''2024-05-10T09:00'', exampleTask ''B'' ''2024-05-09T23:00'',
      exampleTask ''C'' ''2024-05-10T01:00'']"

section \<open>Properties of the Schedule pipeline\<close>

text \<open>Grouping: which keys are created, in which order, and what each key holds.\<close>

lemma push_keys [simp]: "map fst (push k t g) = map fst g"
  by (induction g) auto

lemma map_of_push:
  "map_of (push k t g) k' =
     (if k' = k then map_option (\<lambda>ts. ts @ [t]) (map_of g k) else map_of g k')"
  by (induction g) auto

lemma glookup_push:
  "k \<in> set (map fst g) \<Longrightarrow>
   glookup (push k t g) k' = glookup g k' @ (if k' = k then [t] else [])"
  by (auto simp: glookup_def map_of_push split: option.splits dest: map_of_eq_None_iff [THEN iffD1] weak_map_of_SomeI)

lemma glookup_new:
  "k \<notin> set (map fst g) \<Longrightarrow> glookup (g @ [(k, [])]) k' = glookup g k'"
  by (auto simp: glookup_def map_add_def split: option.splits dest: map_of_SomeD)

lemma groupTask_key:
  "truthy (dueDate t) \<Longrightarrow>
   groupTask g t =
     (if bucketKey t \<in> set (map fst g) then Inr (push (bucketKey t) t g)
      else if bucketKey t \<in> set ObjectPrototypeKeys then Inl TypeError
      else Inr (push (bucketKey t) t (g @ [(bucketKey t, [])])))"
  by (simp add: groupTask_def bucketKey_def Let_def)

lemma groupTask_falsy: "\<not> truthy (dueDate t) \<Longrightarrow> groupTask g t = Inr g"
  by (simp add: groupTask_def)

lemma groupTask_Inr:
  assumes "groupTask g t = Inr g'"
  shows "map fst g' = map fst g @
           (if truthy (dueDate t) \<and> bucketKey t \<notin> set (map fst g) then [bucketKey t] else [])"
    and "glookup g' k = glookup g k @ (if truthy (dueDate t) \<and> bucketKey t = k then [t] else [])"
proof -
  show "map fst g' = map fst g @
           (if truthy (dueDate t) \<and> bucketKey t \<notin> set (map fst g) then [bucketKey t] else [])"
    using assms by (cases "truthy (dueDate t)") (auto simp: groupTask_key groupTask_falsy split: if_splits)
  show "glookup g' k = glookup g k @ (if truthy (dueDate t) \<and> bucketKey t = k then [t] else [])"
  proof (cases "truthy (dueDate t)")
    case False
    with assms show ?thesis by (simp add: groupTask_falsy)
  next
    case True
    show ?thesis
    proof (cases "bucketKey t \<in> set (map fst g)")
      case old: True
      with assms True have "g' = push (bucketKey t) t g" by (simp add: groupTask_key)
      with old True show ?thesis by (auto simp: glookup_push)
    next
      case new: False
      with assms True have g': "g' = push (bucketKey t) t (g @ [(bucketKey t, [])])"
        by (auto simp: groupTask_key split: if_splits)
      have "bucketKey t \<in> set (map fst (g @ [(bucketKey t, [])]))" by simp
      from glookup_push [OF this] new True show ?thesis
        unfolding g' by (auto simp: glookup_new)
    qed
  qed
qed


lemma filter_first_new:
  "filter (\<lambda>x. x \<notin> set ks \<and> x \<noteq> k) xs = filter (\<lambda>x. x \<notin> set (ks @ [k])) xs"
  by (rule filter_cong) auto

lemma groupAll_Inr:
  "groupAll g ts = Inr g' \<Longrightarrow>
   map fst g' = map fst g @ filter (\<lambda>k. k \<notin> set (map fst g))
                  (firstOccurrences (map bucketKey (filter (\<lambda>t. truthy (dueDate t)) ts)))
   \<and> (\<forall>k. glookup g' k =
          glookup g k @ filter (\<lambda>t. truthy (dueDate t) \<and> bucketKey t = k) ts)"
proof (induction ts arbitrary: g)
  case Nil
  then show ?case by simp
next
  case (Cons t ts)
  from Cons.prems obtain g1 where g1: "groupTask g t = Inr g1" and rest: "groupAll g1 ts = Inr g'"
    by (auto split: sum.splits)
  note step = groupTask_Inr [OF g1]
  note ih = Cons.IH [OF rest]
  let ?fo = "firstOccurrences (map bucketKey (filter (\<lambda>t. truthy (dueDate t)) ts))"
  have keys: "map fst g' = map fst g @ filter (\<lambda>k. k \<notin> set (map fst g))
                  (firstOccurrences (map bucketKey (filter (\<lambda>t. truthy (dueDate t)) (t # ts))))"
  proof (cases "truthy (dueDate t)")
    case False
    with step(1) ih show ?thesis by simp
  next
    case True
    show ?thesis
    proof (cases "bucketKey t \<in> set (map fst g)")
      case old: True
      have "filter (\<lambda>k. k \<notin> set (map fst g)) (filter (\<lambda>y. y \<noteq> bucketKey t) ?fo)
          = filter (\<lambda>k. k \<notin> set (map fst g)) ?fo"
        unfolding filter_filter using old by (intro filter_cong) auto
      with step(1) ih True old show ?thesis by simp
    next
      case new: False
      have k1: "map fst g1 = map fst g @ [bucketKey t]"
        using step(1) True new by simp
      have "filter (\<lambda>k. k \<notin> set (map fst g1)) ?fo
          = filter (\<lambda>k. k \<notin> set (map fst g)) (filter (\<lambda>y. y \<noteq> bucketKey t) ?fo)"
        unfolding filter_filter k1 by (intro filter_cong) auto
      with ih have "map fst g' = map fst g @ bucketKey t #
          filter (\<lambda>k. k \<notin> set (map fst g)) (filter (\<lambda>y. y \<noteq> bucketKey t) ?fo)"
        by (simp add: k1)
      with True new show ?thesis by simp
    qed
  qed
  have "glookup g' k = glookup g k @ filter (\<lambda>t. truthy (dueDate t) \<and> bucketKey t = k) (t # ts)" for k
    using step(2) [of k] ih by simp
  with keys show ?case by blast
qed

lemma groupAll_total:
  "\<forall>t \<in> set ts. truthy (dueDate t) \<longrightarrow> bucketKey t \<notin> set ObjectPrototypeKeys \<Longrightarrow>
   \<exists>g'. groupAll g ts = Inr g'"
proof (induction ts arbitrary: g)
  case Nil
  show ?case by simp
next
  case (Cons t ts)
  have "\<exists>g1. groupTask g t = Inr g1"
  proof (cases "truthy (dueDate t)")
    case True
    with Cons.prems have "bucketKey t \<notin> set ObjectPrototypeKeys" by simp
    with True show ?thesis by (simp add: groupTask_key)
  next
    case False
    then show ?thesis by (simp add: groupTask_falsy)
  qed
  then obtain g1 where "groupTask g t = Inr g1" by blast
  with Cons show ?case by simp
qed

lemma groupAll_TypeError:
  "\<exists>t \<in> set ts. truthy (dueDate t) \<and> bucketKey t \<in> set ObjectPrototypeKeys \<Longrightarrow>
   set (map fst g) \<inter> set ObjectPrototypeKeys = {} \<Longrightarrow>
   groupAll g ts = Inl TypeError"
proof (induction ts arbitrary: g)
  case Nil
  then show ?case by simp
next
  case (Cons t ts)
  show ?case
  proof (cases "groupTask g t")
    case (Inl e)
    then show ?thesis by (cases e) simp
  next
    case (Inr g1)
    have notproto: "\<not> (truthy (dueDate t) \<and> bucketKey t \<in> set ObjectPrototypeKeys)"
    proof
      assume a: "truthy (dueDate t) \<and> bucketKey t \<in> set ObjectPrototypeKeys"
      with Cons.prems(2) have "bucketKey t \<notin> set (map fst g)" by auto
      with a Inr show False by (simp add: groupTask_key)
    qed
    with Cons.prems(1) have later:
      "\<exists>t \<in> set ts. truthy (dueDate t) \<and> bucketKey t \<in> set ObjectPrototypeKeys" by auto
    have "set (map fst g1) \<inter> set ObjectPrototypeKeys = {}"
      using groupTask_Inr(1) [OF Inr] Cons.prems(2) notproto by (auto split: if_splits)
    from Cons.IH [OF later this] Inr show ?thesis by simp
  qed
qed

text \<open>Sorting: the result is a rearrangement; when every due date parses it is the stable sort by time value.\<close>

lemma set_insertBy [simp]: "set (insertBy cmp x ys) = insert x (set ys)"
  by (induction ys) auto

lemma set_sortBy [simp]: "set (sortBy cmp xs) = set xs"
  unfolding sortBy_def by (induction xs) auto

lemma mset_insertBy [simp]: "mset (insertBy cmp x ys) = add_mset x (mset ys)"
  by (induction ys) auto

lemma mset_sortBy [simp]: "mset (sortBy cmp xs) = mset xs"
  unfolding sortBy_def by (induction xs) auto

lemma insertBy_insort_key:
  assumes "dueTime parse x \<noteq> None" "\<forall>y \<in> set ys. dueTime parse y \<noteq> None"
  shows "insertBy (compareDue parse) x ys = insort_key (\<lambda>t. the (dueTime parse t)) x ys"
  using assms by (induction ys) (auto simp: compareDue_def)

lemma sortBy_sort_key:
  assumes "\<forall>x \<in> set xs. dueTime parse x \<noteq> None"
  shows "sortBy (compareDue parse) xs = sort_key (\<lambda>t. the (dueTime parse t)) xs"
  using assms
proof (induction xs)
  case Nil
  show ?case by (simp add: sortBy_def)
next
  case (Cons x xs)
  then have ih: "sortBy (compareDue parse) xs = sort_key (\<lambda>t. the (dueTime parse t)) xs" by simp
  have "\<forall>y \<in> set (sortBy (compareDue parse) xs). dueTime parse y \<noteq> None"
    using Cons.prems by simp
  with Cons.prems have
    "insertBy (compareDue parse) x (sortBy (compareDue parse) xs)
       = insort_key (\<lambda>t. the (dueTime parse t)) x (sortBy (compareDue parse) xs)"
    by (intro insertBy_insort_key) simp_all
  with ih show ?case by (simp add: sortBy_def sort_key_def)
qed


section \<open>The claims\<close>

lemma leap_2024: "leapFlag 2024 = 1"
  by (simp add: leapFlag_def DaysInYear_def)

lemma leap_2023: "leapFlag 2023 = 0"
  by (simp add: leapFlag_def DaysInYear_def)

lemma Date_ymd_local:
  "\<not> (0 \<le> y \<and> y \<le> 99) \<Longrightarrow>
   LocalTime tz (Date_ymd tz y m d) = MakeDate (MakeDay y m d) 0"
  by (auto simp: Date_ymd_def effectiveYear_def)

text \<open>
  C2 (the code departs from the claim). The claim: advancing one month from January 31
  gives the last day of February, February 29 in 2024 and February 28 in 2023, never
  March 2 or 3. The code calls \<^verbatim>\<open>setMonth(getMonth() + 1)\<close>, which keeps day 31 and
  lets it run over into March: from January 31 the Month view lands on March 2 in 2024
  and on March 3 in 2023, in every time zone.
\<close>

theorem navigate_month_from_jan31:
  "getMonth tz (currentDate (navigate tz Next
      \<lparr>currentDate = Date_ymd tz 2024 0 31, viewMode = Month\<rparr>)) = 2
   \<and> getDate tz (currentDate (navigate tz Next
      \<lparr>currentDate = Date_ymd tz 2024 0 31, viewMode = Month\<rparr>)) = 2
   \<and> getMonth tz (currentDate (navigate tz Next
      \<lparr>currentDate = Date_ymd tz 2023 0 31, viewMode = Month\<rparr>)) = 2
   \<and> getDate tz (currentDate (navigate tz Next
      \<lparr>currentDate = Date_ymd tz 2023 0 31, viewMode = Month\<rparr>)) = 3"
proof -
  have tw: "(0::int) \<le> 0" "0 < msPerDay" by (simp_all add: msPerDay_def)
  have f24: "YearFromTime (MakeDate (MakeDay 2024 0 31) 0) = 2024"
    "MonthFromTime (MakeDate (MakeDay 2024 0 31) 0) = 0"
    "DateFromTime (MakeDate (MakeDay 2024 0 31) 0) = 31"
    "TimeWithinDay (MakeDate (MakeDay 2024 0 31) 0) = 0"
    using fields_of_day [of 0 31 2024 0] tw
    by (simp_all add: DaysInMonth_def monthStart_def TimeWithinDay_MakeDate)
  have f23: "YearFromTime (MakeDate (MakeDay 2023 0 31) 0) = 2023"
    "MonthFromTime (MakeDate (MakeDay 2023 0 31) 0) = 0"
    "DateFromTime (MakeDate (MakeDay 2023 0 31) 0) = 31"
    "TimeWithinDay (MakeDate (MakeDay 2023 0 31) 0) = 0"
    using fields_of_day [of 0 31 2023 0] tw
    by (simp_all add: DaysInMonth_def monthStart_def TimeWithinDay_MakeDate)
  have o24: "MakeDay 2024 1 31 = MakeDay 2024 2 2"
    by (simp add: MakeDay_in_range monthStart_def leap_2024)
  have o23: "MakeDay 2023 1 31 = MakeDay 2023 2 3"
    by (simp add: MakeDay_in_range monthStart_def leap_2023)
  have g24: "MonthFromTime (MakeDate (MakeDay 2024 2 2) 0) = 2"
    "DateFromTime (MakeDate (MakeDay 2024 2 2) 0) = 2"
    using fields_of_day [of 2 2 2024 0] tw
    by (simp_all add: DaysInMonth_def monthStart_def leap_2024)
  have g23: "MonthFromTime (MakeDate (MakeDay 2023 2 3) 0) = 2"
    "DateFromTime (MakeDate (MakeDay 2023 2 3) 0) = 3"
    using fields_of_day [of 2 3 2023 0] tw
    by (simp_all add: DaysInMonth_def monthStart_def leap_2023)
  show ?thesis
    by (simp add: navigate_def Let_def setMonth_def getMonth_def getDate_def Date_ymd_local
        f24 f23 o24 o23 g24 g23)
qed

text \<open>
  The same overflow going back: from March 31, 2024 the Month view's previous month is
  again March (February 31 is March 2).
\<close>

lemma navigate_prev_from_mar31:
  "getMonth 330 (currentDate (navigate 330 Prev
      \<lparr>currentDate = Date_ymd 330 2024 2 31, viewMode = Month\<rparr>)) = 2"
  "getDate 330 (currentDate (navigate 330 Prev
      \<lparr>currentDate = Date_ymd 330 2024 2 31, viewMode = Month\<rparr>)) = 2"
  by code_simp+

text \<open>
  C9. Navigation preserves the view mode: for every anchor date, view mode and
  direction, \<^verbatim>\<open>navigate\<close> changes only the anchor date of the view state.
\<close>

theorem navigate_preserves_viewMode:
  "viewMode (navigate tz direction s) = viewMode s
   \<and> navigate tz direction s = s\<lparr>currentDate := currentDate (navigate tz direction s)\<rparr>"
  by (simp add: navigate_def Let_def)

lemma DayNumber_shift: "DayNumber (t + k * msPerDay) = DayNumber t + k"
  unfolding DayNumber_def using msPerDay_pos by simp

lemma LocalTime_shift: "LocalTime tz (d + k) = LocalTime tz d + k"
  by (simp add: LocalTime_def)

lemma WeekDay_range: "0 \<le> WeekDay t \<and> WeekDay t \<le> 6"
  unfolding WeekDay_def by presburger

lemma weekDays_eq:
  "weekDays tz cur = map (\<lambda>i. cur - getDay tz cur * msPerDay + i * msPerDay) [0..6]"
proof -
  have start: "setDate tz cur (getDate tz cur - getDay tz cur) = cur - getDay tz cur * msPerDay"
    using setDate_shift [of tz cur "- getDay tz cur"] by simp
  show ?thesis
    unfolding weekDays_def Let_def start by (simp only: setDate_shift)
qed

lemma day_of_shift:
  "DayNumber (LocalTime tz (cur - g * msPerDay + i * msPerDay))
     = DayNumber (LocalTime tz cur) - g + i"
proof -
  have e: "cur - g * msPerDay + i * msPerDay = cur + (i - g) * msPerDay"
    by (simp add: algebra_simps)
  show ?thesis unfolding e LocalTime_shift DayNumber_shift by simp
qed

lemma getDay_week:
  assumes "0 \<le> i" "i \<le> 6"
  shows "getDay tz (cur - getDay tz cur * msPerDay + i * msPerDay) = i"
proof -
  define n where "n = DayNumber (LocalTime tz cur)"
  have "(n - (n + 4) mod 7 + i + 4) mod 7 = i"
    using assms by presburger
  then show ?thesis
    unfolding getDay_def WeekDay_def day_of_shift n_def .
qed

text \<open>
  C6. Week view window: the week starts at the anchor date minus the anchor's weekday
  index (Sunday is 0), the view has exactly 7 columns, on 7 consecutive calendar days from
  that start (column \<open>i\<close> falls on weekday \<open>i\<close>), and each column's task list is
  \<^verbatim>\<open>getTasksForDate\<close> of the column's date.
\<close>

theorem week_view_window:
  "map columnDate (renderWeekView tz now tasks cur)
     = map (\<lambda>i. cur - getDay tz cur * msPerDay + i * msPerDay) [0..6]
   \<and> length (renderWeekView tz now tasks cur) = 7
   \<and> (\<forall>i \<in> {0..6}.
        getDay tz (cur - getDay tz cur * msPerDay + i * msPerDay) = i
        \<and> DayNumber (LocalTime tz (cur - getDay tz cur * msPerDay + i * msPerDay))
            = DayNumber (LocalTime tz cur) - getDay tz cur + i)
   \<and> (\<forall>col \<in> set (renderWeekView tz now tasks cur).
        dayTasks col = getTasksForDate tasks (columnDate col))"
proof -
  have dates: "map columnDate (renderWeekView tz now tasks cur)
     = map (\<lambda>i. cur - getDay tz cur * msPerDay + i * msPerDay) [0..6]"
    by (simp add: renderWeekView_def weekDays_eq comp_def)
  have len: "length (renderWeekView tz now tasks cur) = 7"
    by (simp add: renderWeekView_def weekDays_eq)
  have days: "getDay tz (cur - getDay tz cur * msPerDay + i * msPerDay) = i
        \<and> DayNumber (LocalTime tz (cur - getDay tz cur * msPerDay + i * msPerDay))
            = DayNumber (LocalTime tz cur) - getDay tz cur + i" if "i \<in> {0..6}" for i
    using getDay_week [of i tz cur] that by (simp add: day_of_shift)
  have cols: "dayTasks col = getTasksForDate tasks (columnDate col)"
    if "col \<in> set (renderWeekView tz now tasks cur)" for col
    using that by (auto simp: renderWeekView_def)
  from dates len days cols show ?thesis by blast
qed

lemma getDay_sample: "getDay 330 1715311800000 = 5"
  by code_simp

theorem week_view_window_witness:
  "map columnDate (renderWeekView 330 0 [] 1715311800000)
     = [1714879800000, 1714966200000, 1715052600000, 1715139000000, 1715225400000,
        1715311800000, 1715398200000]
   \<and> length (renderWeekView 330 0 [] 1715311800000) = 7
   \<and> getDay 330 1714879800000 = 0
   \<and> dayTasks (hd (renderWeekView 330 0 [] 1715311800000)) = getTasksForDate [] 1714879800000"
proof -
  note w = week_view_window [of 330 0 "[]" 1715311800000]
  have l: "[0..6] = [0, 1, 2, 3, 4, 5, 6::int]" by code_simp
  have dates: "map columnDate (renderWeekView 330 0 [] 1715311800000)
     = [1714879800000, 1714966200000, 1715052600000, 1715139000000, 1715225400000,
        1715311800000, 1715398200000]"
    using w by (simp add: getDay_sample msPerDay_def l)
  have len: "length (renderWeekView 330 0 [] 1715311800000) = 7" using w by simp
  have "(0::int) \<in> {0..6}" by simp
  with w have "getDay 330 (1715311800000 - getDay 330 1715311800000 * msPerDay + 0 * msPerDay) = 0"
    by blast
  then have sun: "getDay 330 1714879800000 = 0"
    by (simp add: getDay_sample msPerDay_def)
  from dates len have "hd (renderWeekView 330 0 [] 1715311800000)
       \<in> set (renderWeekView 330 0 [] 1715311800000)"
    by (intro hd_in_set) auto
  with w have "dayTasks (hd (renderWeekView 330 0 [] 1715311800000))
      = getTasksForDate [] (columnDate (hd (renderWeekView 330 0 [] 1715311800000)))"
    by blast
  moreover have "columnDate (hd (renderWeekView 330 0 [] 1715311800000)) = 1714879800000"
    using dates by (cases "renderWeekView 330 0 [] 1715311800000") auto
  ultimately show ?thesis using dates len sun by simp
qed

lemma Date_ymd_effective:
  "LocalTime tz (Date_ymd tz y m d) = MakeDate (MakeDay (effectiveYear y) m d) 0"
  by (simp add: Date_ymd_def)

lemma effectiveYear_id: "\<not> (0 \<le> y \<and> y \<le> 99) \<Longrightarrow> effectiveYear y = y"
  by (auto simp: effectiveYear_def)

lemma DaysInMonth_range:
  assumes "L = 0 \<or> L = 1" "0 \<le> m" "m < 12"
  shows "28 \<le> DaysInMonth L m \<and> DaysInMonth L m \<le> 31"
  using assms(2,3)
proof (cases m rule: month_cases)
qed (use assms(1) in \<open>auto simp: monthStart_def DaysInMonth_def\<close>)

lemma MakeDay_last:
  assumes "0 \<le> m" "m < 12"
  shows "MakeDay y (m + 1) 0 = MakeDay y m (DaysInMonth (leapFlag y) m)"
proof (cases "m = 11")
  case True
  have "MakeDay y 12 0 = DayFromYear (y + 1) - 1"
    by (simp add: MakeDay_def monthStart_def)
  also have "\<dots> = DayFromYear y + 365 + leapFlag y - 1"
    by (simp add: DayFromYear_step DaysInYear_leapFlag)
  also have "\<dots> = MakeDay y 11 (DaysInMonth (leapFlag y) 11)"
    by (simp add: MakeDay_in_range DaysInMonth_def monthStart_def)
  finally show ?thesis using True by simp
next
  case False
  with assms have "0 \<le> m + 1" "m + 1 < 12" by simp_all
  from MakeDay_in_range [OF this] MakeDay_in_range [OF assms] show ?thesis
    by (simp add: DaysInMonth_def)
qed

lemma midnight: "(0::int) \<le> 0" "0 < msPerDay"
  by (simp_all add: msPerDay_def)

lemma daysInMonthOf_eq:
  assumes "0 \<le> m" "m < 12"
  shows "daysInMonthOf tz y m = DaysInMonth (leapFlag (effectiveYear y)) m"
proof -
  define L where "L = leapFlag (effectiveYear y)"
  have r: "1 \<le> DaysInMonth L m" "DaysInMonth L m \<le> DaysInMonth L m"
    using DaysInMonth_range [OF leapFlag_cases assms, of "effectiveYear y"] by (simp_all add: L_def)
  show ?thesis
    unfolding daysInMonthOf_def getDate_def Date_ymd_effective MakeDay_last [OF assms]
    using fields_of_day(3) [OF assms r [unfolded L_def] midnight] by (simp add: L_def)
qed

lemma MonthFromTime_range: "0 \<le> MonthFromTime t \<and> MonthFromTime t < 12"
  by (simp add: MonthFromTime_def monthOfDay_def)

lemma getMonth_range: "0 \<le> getMonth tz d \<and> getMonth tz d < 12"
  unfolding getMonth_def by (rule MonthFromTime_range)

lemma firstDayOf_range: "0 \<le> firstDayOf tz y m \<and> firstDayOf tz y m \<le> 6"
  unfolding firstDayOf_def getDay_def by (rule WeekDay_range)

lemma firstDayOf_anchor:
  assumes "\<not> (0 \<le> getFullYear tz cur \<and> getFullYear tz cur \<le> 99)"
  shows "firstDayOf tz (getFullYear tz cur) (getMonth tz cur) = getDay tz (setDate tz cur 1)"
proof -
  have "DayNumber (LocalTime tz (Date_ymd tz (getFullYear tz cur) (getMonth tz cur) 1))
      = DayNumber (LocalTime tz cur) - getDate tz cur + 1"
    using midnight effectiveYear_id [OF assms]
    by (simp add: Date_ymd_effective DayNumber_MakeDate)
      (simp add: getFullYear_def getMonth_def getDate_def MakeDay_own_fields)
  then show ?thesis
    by (simp add: firstDayOf_def getDay_def WeekDay_def DayNumber_setDate)
qed

lemma length_cells:
  assumes "0 \<le> a" "0 \<le> b"
  shows "int (length (map f [0..a - 1] @ map g [1..b])) = a + b"
  using assms by simp

text \<open>
  C5. Month grid length: the Month view grid is \<open>O\<close> empty cells followed by one cell
  per day 1 to \<open>n\<close>, \<open>O + n\<close> cells in all and no trailing padding, where \<open>O\<close> is the
  weekday index (0 to 6) of day 1 of the anchor's month and \<open>n\<close> the number of days of
  that month. (\<^verbatim>\<open>new Date(y, m, d)\<close> reads a year from 0 to 99 as 1900 + y; the last
  part is for anchors outside those years.) January 2024 gives 1 + 31 = 32 cells.
\<close>

theorem month_grid_length:
  "renderMonthView tz now tasks cur =
     map EmptyCell [0..firstDayOf tz (getFullYear tz cur) (getMonth tz cur) - 1]
     @ map (\<lambda>day. DayCell day
              (Date_ymd tz (getFullYear tz cur) (getMonth tz cur) day)
              (isSameDate tz now (Date_ymd tz (getFullYear tz cur) (getMonth tz cur) day))
              (getTasksForDate tasks (Date_ymd tz (getFullYear tz cur) (getMonth tz cur) day)))
         [1..daysInMonthOf tz (getFullYear tz cur) (getMonth tz cur)]
   \<and> int (length (renderMonthView tz now tasks cur)) =
       firstDayOf tz (getFullYear tz cur) (getMonth tz cur)
       + daysInMonthOf tz (getFullYear tz cur) (getMonth tz cur)
   \<and> 0 \<le> firstDayOf tz (getFullYear tz cur) (getMonth tz cur)
   \<and> firstDayOf tz (getFullYear tz cur) (getMonth tz cur) \<le> 6
   \<and> (\<not> (0 \<le> getFullYear tz cur \<and> getFullYear tz cur \<le> 99) \<longrightarrow>
        firstDayOf tz (getFullYear tz cur) (getMonth tz cur) = getDay tz (setDate tz cur 1)
        \<and> daysInMonthOf tz (getFullYear tz cur) (getMonth tz cur)
            = DaysInMonth (leapFlag (getFullYear tz cur)) (getMonth tz cur))"
proof -
  define y where "y = getFullYear tz cur"
  define m where "m = getMonth tz cur"
  have m: "0 \<le> m" "m < 12" using getMonth_range [of tz cur] by (simp_all add: m_def)
  have n: "daysInMonthOf tz y m = DaysInMonth (leapFlag (effectiveYear y)) m"
    by (rule daysInMonthOf_eq [OF m])
  have n0: "0 \<le> daysInMonthOf tz y m"
    using DaysInMonth_range [OF leapFlag_cases m, of "effectiveYear y"] n by simp
  have O: "0 \<le> firstDayOf tz y m" "firstDayOf tz y m \<le> 6"
    using firstDayOf_range [of tz y m] by simp_all
  have cells: "renderMonthView tz now tasks cur =
     map EmptyCell [0..firstDayOf tz y m - 1]
     @ map (\<lambda>day. DayCell day (Date_ymd tz y m day) (isSameDate tz now (Date_ymd tz y m day))
              (getTasksForDate tasks (Date_ymd tz y m day)))
         [1..daysInMonthOf tz y m]"
    by (simp add: renderMonthView_def Let_def y_def m_def)
  have len: "int (length (renderMonthView tz now tasks cur)) = firstDayOf tz y m + daysInMonthOf tz y m"
    unfolding cells by (rule length_cells [OF O(1) n0])
  have cal: "firstDayOf tz y m = getDay tz (setDate tz cur 1)
        \<and> daysInMonthOf tz y m = DaysInMonth (leapFlag y) m" if "\<not> (0 \<le> y \<and> y \<le> 99)"
    using effectiveYear_id [OF that] firstDayOf_anchor [of tz cur] that n
    by (simp add: y_def m_def)
  from cells len O cal show ?thesis unfolding y_def m_def by blast
qed

lemma jan_2024_sample:
  "getFullYear 330 1705300000000 = 2024" "getMonth 330 1705300000000 = 0"
  "firstDayOf 330 2024 0 = 1" "daysInMonthOf 330 2024 0 = 31"
  by code_simp+

theorem month_grid_length_witness:
  "int (length (renderMonthView 330 0 [] 1705300000000)) = 32
   \<and> getDay 330 (setDate 330 1705300000000 1) = 1
   \<and> DaysInMonth (leapFlag 2024) 0 = 31"
  using month_grid_length [of 330 0 "[]" 1705300000000]
  by (simp add: jan_2024_sample)

lemma Date_ymd_fields:
  assumes "0 \<le> m" "m < 12" "1 \<le> d" "d \<le> daysInMonthOf tz y m"
  shows "getFullYear tz (Date_ymd tz y m d) = effectiveYear y"
    and "getMonth tz (Date_ymd tz y m d) = m"
    and "getDate tz (Date_ymd tz y m d) = d"
proof -
  have d: "d \<le> DaysInMonth (leapFlag (effectiveYear y)) m"
    using assms(4) daysInMonthOf_eq [OF assms(1,2)] by simp
  note f = fields_of_day [OF assms(1,2,3) d midnight]
  show "getFullYear tz (Date_ymd tz y m d) = effectiveYear y"
    by (simp add: getFullYear_def Date_ymd_effective f)
  show "getMonth tz (Date_ymd tz y m d) = m"
    by (simp add: getMonth_def Date_ymd_effective f)
  show "getDate tz (Date_ymd tz y m d) = d"
    by (simp add: getDate_def Date_ymd_effective f)
qed

lemma miniCells_day:
  assumes "MiniDay d date h t \<in> set (miniCells tz now tasks y m)"
  shows "date = Date_ymd tz y m d \<and> 1 \<le> d \<and> d \<le> daysInMonthOf tz y m"
  using assms by (auto simp: miniCells_def Let_def)

lemma renderYearView_nth:
  assumes "i < 12"
  shows "renderYearView tz now tasks cur ! i = miniCells tz now tasks (getFullYear tz cur) (int i)"
proof -
  have "i < length [0..11::int]" using assms by simp
  moreover have "[0..11::int] ! i = int i" using assms by (simp add: nth_upto)
  ultimately show ?thesis by (simp add: renderYearView_def Let_def)
qed

text \<open>
  C8. Cross-view selection: clicking a day cell of the Year view switches the view mode to
  Day and sets the anchor date to that cell's day, the day of month and the month of the
  cell and the year shown (as everywhere, \<^verbatim>\<open>new Date(y, m, d)\<close> reads a year from 0 to
  99 as 1900 + y). No other selection changes the view mode: an event that changes it is
  this click or the view switcher itself.
\<close>

theorem year_day_selection:
  "(\<forall>i < 12. \<forall>d date h t.
      MiniDay d date h t \<in> set (renderYearView tz now tasks (currentDate s) ! i) \<longrightarrow>
        viewMode (fst (handleEvent tz now (YearDayClick date) s)) = Day
        \<and> currentDate (fst (handleEvent tz now (YearDayClick date) s)) = date
        \<and> getDate tz date = d
        \<and> getMonth tz date = int i
        \<and> getFullYear tz date = effectiveYear (getFullYear tz (currentDate s))
        \<and> (\<not> (0 \<le> getFullYear tz (currentDate s) \<and> getFullYear tz (currentDate s) \<le> 99)
             \<longrightarrow> getFullYear tz date = getFullYear tz (currentDate s)))
   \<and> (\<forall>e. viewMode (fst (handleEvent tz now e s)) \<noteq> viewMode s \<longrightarrow>
          (\<exists>date. e = YearDayClick date) \<or> (\<exists>v. e = ViewSwitchClick v))"
proof -
  have cell: "viewMode (fst (handleEvent tz now (YearDayClick date) s)) = Day
        \<and> currentDate (fst (handleEvent tz now (YearDayClick date) s)) = date
        \<and> getDate tz date = d
        \<and> getMonth tz date = int i
        \<and> getFullYear tz date = effectiveYear (getFullYear tz (currentDate s))
        \<and> (\<not> (0 \<le> getFullYear tz (currentDate s) \<and> getFullYear tz (currentDate s) \<le> 99)
             \<longrightarrow> getFullYear tz date = getFullYear tz (currentDate s))"
    if i: "i < 12"
      and c: "MiniDay d date h t \<in> set (renderYearView tz now tasks (currentDate s) ! i)"
    for i d date h t
  proof -
    define y where "y = getFullYear tz (currentDate s)"
    from c have "MiniDay d date h t \<in> set (miniCells tz now tasks y (int i))"
      by (simp add: renderYearView_nth [OF i] y_def)
    from miniCells_day [OF this]
    have date: "date = Date_ymd tz y (int i) d" and d: "1 \<le> d" "d \<le> daysInMonthOf tz y (int i)"
      by simp_all
    have m: "0 \<le> int i" "int i < 12" using i by simp_all
    note f = Date_ymd_fields [OF m d]
    have "\<not> (0 \<le> y \<and> y \<le> 99) \<longrightarrow> getFullYear tz date = y"
      using f(1) effectiveYear_id [of y] by (auto simp: date)
    with f show ?thesis by (simp add: handleEvent_def date y_def)
  qed
  have others: "(\<exists>date. e = YearDayClick date) \<or> (\<exists>v. e = ViewSwitchClick v)"
    if "viewMode (fst (handleEvent tz now e s)) \<noteq> viewMode s" for e
    using that by (cases e) (simp_all add: handleEvent_def navigate_def Let_def)
  from cell others show ?thesis by blast
qed

lemma year_view_sample:
  "getFullYear 330 1705300000000 = 2024" "daysInMonthOf 330 2024 2 = 31"
  by code_simp+

theorem year_day_selection_witness:
  "viewMode (fst (handleEvent 330 0 (YearDayClick (Date_ymd 330 2024 2 5))
      \<lparr>currentDate = 1705300000000, viewMode = Year\<rparr>)) = Day
   \<and> currentDate (fst (handleEvent 330 0 (YearDayClick (Date_ymd 330 2024 2 5))
      \<lparr>currentDate = 1705300000000, viewMode = Year\<rparr>)) = Date_ymd 330 2024 2 5
   \<and> getDate 330 (Date_ymd 330 2024 2 5) = 5
   \<and> getMonth 330 (Date_ymd 330 2024 2 5) = 2
   \<and> getFullYear 330 (Date_ymd 330 2024 2 5) = 2024
   \<and> viewMode (fst (handleEvent 330 0 (MonthCellClick 0)
      \<lparr>currentDate = 1705300000000, viewMode = Year\<rparr>)) = Year"
proof -
  define s where "s = \<lparr>currentDate = 1705300000000, viewMode = Year\<rparr>"
  note w = year_day_selection [of 330 0 "[]" s]
  have "renderYearView 330 0 [] (currentDate s) ! 2 = miniCells 330 0 [] 2024 (int 2)"
    using renderYearView_nth [of 2 330 0 "[]" "currentDate s"]
    by (simp add: s_def year_view_sample)
  then have "MiniDay 5 (Date_ymd 330 2024 2 5) False (isSameDate 330 0 (Date_ymd 330 2024 2 5))
      \<in> set (renderYearView 330 0 [] (currentDate s) ! 2)"
    by (simp add: miniCells_def Let_def year_view_sample getTasksForDate_def image_iff)
  moreover have "(2::nat) < 12" by simp
  ultimately have
    "viewMode (fst (handleEvent 330 0 (YearDayClick (Date_ymd 330 2024 2 5)) s)) = Day
     \<and> currentDate (fst (handleEvent 330 0 (YearDayClick (Date_ymd 330 2024 2 5)) s))
         = Date_ymd 330 2024 2 5
     \<and> getDate 330 (Date_ymd 330 2024 2 5) = 5
     \<and> getMonth 330 (Date_ymd 330 2024 2 5) = int 2
     \<and> getFullYear 330 (Date_ymd 330 2024 2 5) = effectiveYear (getFullYear 330 (currentDate s))"
    using w by blast
  moreover have "viewMode (fst (handleEvent 330 0 (MonthCellClick 0) s)) = viewMode s"
    using w by blast
  ultimately show ?thesis
    by (simp add: s_def year_view_sample effectiveYear_def)
qed

lemma set_sortedTasks: "set (sortedTasks parse tasks) = {t \<in> set tasks. truthy (dueDate t)}"
  by (auto simp: sortedTasks_def)

lemma renderScheduleView_Inr:
  assumes "renderScheduleView parse tz now tasks = Inr groups"
  shows "\<exists>grouped. groupAll [] (sortedTasks parse tasks) = Inr grouped
    \<and> map dateStr groups = Object_keys grouped
    \<and> (\<forall>g \<in> set groups.
          groupTasks g = glookup grouped (dateStr g)
          \<and> displayDate g = displayDateOf tz (dateStr g))"
proof -
  from assms obtain grouped where g: "groupAll [] (sortedTasks parse tasks) = Inr grouped"
    by (auto simp: renderScheduleView_def Let_def split: sum.splits)
  with assms have groups: "groups = map (\<lambda>key.
        \<lparr>dateStr = key, displayDate = displayDateOf tz key,
         isPast = (case displayDateOf tz key of None \<Rightarrow> False
            | Some t \<Rightarrow> t < UTC tz (MakeDate (DayNumber (LocalTime tz now)) 0)),
         groupTasks = glookup grouped key\<rparr>) (Object_keys grouped)"
    by (simp add: renderScheduleView_def Let_def)
  have "map dateStr groups = Object_keys grouped"
    unfolding groups by (simp add: comp_def)
  moreover have "groupTasks g = glookup grouped (dateStr g)
          \<and> displayDate g = displayDateOf tz (dateStr g)" if "g \<in> set groups" for g
    using that unfolding groups by auto
  ultimately show ?thesis using g by blast
qed

lemma schedule_group_tasks:
  assumes "renderScheduleView parse tz now tasks = Inr groups" "g \<in> set groups"
  shows "groupTasks g
     = filter (\<lambda>t. truthy (dueDate t) \<and> bucketKey t = dateStr g) (sortedTasks parse tasks)"
proof -
  from assms(1) obtain grouped where g: "groupAll [] (sortedTasks parse tasks) = Inr grouped"
    and k: "map dateStr groups = Object_keys grouped"
    and t: "\<forall>g \<in> set groups. groupTasks g = glookup grouped (dateStr g)
          \<and> displayDate g = displayDateOf tz (dateStr g)"
    using renderScheduleView_Inr by blast
  from groupAll_Inr [OF g] have "glookup grouped (dateStr g)
     = filter (\<lambda>t. truthy (dueDate t) \<and> bucketKey t = dateStr g) (sortedTasks parse tasks)"
    by (simp add: glookup_def)
  with t assms(2) show ?thesis by simp
qed




text \<open>
  The key \<^verbatim>\<open>getTasksForDate\<close> derives from a date is the UTC calendar date of its
  instant. A calendar cell is a local midnight; in every zone east of Greenwich that
  instant lies on the previous UTC day, so the cell of local day \<open>d\<close> carries the key of
  day \<open>d - 1\<close>.
\<close>

lemma isoDate_DayNumber: "DayNumber t = DayNumber t' \<Longrightarrow> isoDate t = isoDate t'"
  by (simp add: isoDate_def YearFromTime_def MonthFromTime_def DateFromTime_def
      DayWithinYear_def InLeapYear_def)

lemma DayNumber_cell_east:
  assumes "0 < tz" "tz \<le> 1440"
  shows "DayNumber (Date_ymd tz y m d) = MakeDay (effectiveYear y) m d - 1"
proof -
  define n where "n = MakeDay (effectiveYear y) m d"
  have r: "0 \<le> msPerDay - tz * msPerMinute" "msPerDay - tz * msPerMinute < msPerDay"
    using assms by (simp_all add: msPerDay_def msPerMinute_def)
  have "Date_ymd tz y m d = MakeDate (n - 1) (msPerDay - tz * msPerMinute)"
    by (simp add: Date_ymd_def UTC_def MakeDate_def n_def algebra_simps)
  then show ?thesis
    using DayNumber_MakeDate [OF r] by (simp add: n_def)
qed

lemma cell_key_east:
  assumes "0 < tz" "tz \<le> 1440"
  shows "isoDate (Date_ymd tz y m d) = isoDate (MakeDate (MakeDay (effectiveYear y) m d - 1) 0)"
proof (rule isoDate_DayNumber)
  show "DayNumber (Date_ymd tz y m d) = DayNumber (MakeDate (MakeDay (effectiveYear y) m d - 1) 0)"
    using DayNumber_cell_east [OF assms] midnight by (simp add: DayNumber_MakeDate)
qed

lemma may_cells:
  "getFullYear 330 (Date_ymd 330 2024 4 10) = 2024"
  "getMonth 330 (Date_ymd 330 2024 4 10) = 4"
  "getDate 330 (Date_ymd 330 2024 4 10) = 10"
  "getDate 330 (Date_ymd 330 2024 4 11) = 11"
  "hd (split CHR ''T'' ''2024-05-10T00:00:00.000Z'') = ''2024-05-10''"
  "hd (split CHR ''T'' (toISOString (Date_ymd 330 2024 4 10))) = ''2024-05-09''"
  "hd (split CHR ''T'' (toISOString (Date_ymd 330 2024 4 11))) = ''2024-05-10''"
  by code_simp+

lemma may_lists:
  "getTasksForDate [exampleTask ''X'' ''2024-05-10T00:00:00.000Z''] (Date_ymd 330 2024 4 10) = []"
  "getTasksForDate [exampleTask ''X'' ''2024-05-10T00:00:00.000Z''] (Date_ymd 330 2024 4 11)
     = [exampleTask ''X'' ''2024-05-10T00:00:00.000Z'']"
  by code_simp+

lemma may_schedule:
  "renderScheduleView (parseISOFormat 330) 330 0 [exampleTask ''X'' ''2024-05-10T00:00:00.000Z''] =
     Inr [\<lparr>dateStr = ''2024-05-10'', displayDate = Some (Date_ymd 330 2024 4 10),
           isPast = False, groupTasks = [exampleTask ''X'' ''2024-05-10T00:00:00.000Z'']\<rparr>]"
  by code_simp

lemma may_month_cells:
  "renderMonthView 330 0 ts (Date_ymd 330 2024 4 10) =
     map EmptyCell [0..2]
     @ map (\<lambda>day. DayCell day (Date_ymd 330 2024 4 day)
              (isSameDate 330 0 (Date_ymd 330 2024 4 day))
              (getTasksForDate ts (Date_ymd 330 2024 4 day))) [1..31]"
proof -
  have "firstDayOf 330 2024 4 = 3" "daysInMonthOf 330 2024 4 = 31" by code_simp+
  then show ?thesis by (simp add: renderMonthView_def Let_def may_cells)
qed

lemma may_not_today:
  "isSameDate 330 0 (Date_ymd 330 2024 4 10) = False"
  "isSameDate 330 0 (Date_ymd 330 2024 4 11) = False"
  by code_simp+

lemma may_month_view:
  "renderMonthView 330 0 [exampleTask ''X'' ''2024-05-10T00:00:00.000Z'']
      (Date_ymd 330 2024 4 10) ! 12 = DayCell 10 (Date_ymd 330 2024 4 10) False []"
  "renderMonthView 330 0 [exampleTask ''X'' ''2024-05-10T00:00:00.000Z'']
      (Date_ymd 330 2024 4 10) ! 13
     = DayCell 11 (Date_ymd 330 2024 4 11) False [exampleTask ''X'' ''2024-05-10T00:00:00.000Z'']"
proof -
  have pad: "length (map EmptyCell [0..2]) = 3" by simp
  have d: "[1..31] ! 9 = (10::int)" "[1..31] ! 10 = (11::int)" "length [1..31::int] = 31"
    by (simp_all add: nth_upto)
  show "renderMonthView 330 0 [exampleTask ''X'' ''2024-05-10T00:00:00.000Z'']
      (Date_ymd 330 2024 4 10) ! 12 = DayCell 10 (Date_ymd 330 2024 4 10) False []"
    unfolding may_month_cells
    by (simp only: nth_append pad nth_map d) (simp add: may_not_today may_lists)
  show "renderMonthView 330 0 [exampleTask ''X'' ''2024-05-10T00:00:00.000Z'']
      (Date_ymd 330 2024 4 10) ! 13
     = DayCell 11 (Date_ymd 330 2024 4 11) False [exampleTask ''X'' ''2024-05-10T00:00:00.000Z'']"
    unfolding may_month_cells
    by (simp only: nth_append pad nth_map d) (simp add: may_not_today may_lists)
qed

text \<open>
  C1 (the code departs from the claim). The claim: a task is in the list of a calendar
  date \<open>D\<close> exactly when the \<^verbatim>\<open>YYYY-MM-DD\<close> prefix of its due date is the key of \<open>D\<close>, in
  the Day, Week, Month and Schedule views alike. The code takes the key of \<open>D\<close> from
  \<^verbatim>\<open>D.toISOString()\<close>, the UTC date of the instant, although its comment says it compares
  by year, month and day to avoid time-zone offsets. In UTC+05:30 the task the form
  stores for May 10, 2024 (due \<^verbatim>\<open>2024-05-10T00:00:00.000Z\<close>) is missing from the list of the
  cell of May 10, whose key is \<^verbatim>\<open>2024-05-09\<close>, and is listed in the cell of May 11; the
  Schedule view shows the same task under May 10.
\<close>

theorem bucket_key_of_cell:
  "getFullYear 330 (Date_ymd 330 2024 4 10) = 2024
   \<and> getMonth 330 (Date_ymd 330 2024 4 10) = 4
   \<and> getDate 330 (Date_ymd 330 2024 4 10) = 10
   \<and> hd (split CHR ''T'' ''2024-05-10T00:00:00.000Z'') = ''2024-05-10''
   \<and> hd (split CHR ''T'' (toISOString (Date_ymd 330 2024 4 10))) = ''2024-05-09''
   \<and> getTasksForDate [exampleTask ''X'' ''2024-05-10T00:00:00.000Z''] (Date_ymd 330 2024 4 10)
       = []
   \<and> getTasksForDate [exampleTask ''X'' ''2024-05-10T00:00:00.000Z''] (Date_ymd 330 2024 4 11)
       = [exampleTask ''X'' ''2024-05-10T00:00:00.000Z'']
   \<and> renderMonthView 330 0 [exampleTask ''X'' ''2024-05-10T00:00:00.000Z'']
         (Date_ymd 330 2024 4 10) ! 12
       = DayCell 10 (Date_ymd 330 2024 4 10) False []
   \<and> renderMonthView 330 0 [exampleTask ''X'' ''2024-05-10T00:00:00.000Z'']
         (Date_ymd 330 2024 4 10) ! 13
       = DayCell 11 (Date_ymd 330 2024 4 11) False [exampleTask ''X'' ''2024-05-10T00:00:00.000Z'']
   \<and> map dateStr (projr (renderScheduleView (parseISOFormat 330) 330 0
         [exampleTask ''X'' ''2024-05-10T00:00:00.000Z''])) = [''2024-05-10'']
   \<and> map displayDate (projr (renderScheduleView (parseISOFormat 330) 330 0
         [exampleTask ''X'' ''2024-05-10T00:00:00.000Z''])) = [Some (Date_ymd 330 2024 4 10)]"
  by (simp only: may_cells may_lists may_month_view may_schedule) simp

lemma orString_nonempty: "dflt \<noteq> [] \<Longrightarrow> orString v dflt \<noteq> []"
  by (auto simp: orString_def split: option.splits)

text \<open>
  C10. Task-creation defaults: whenever \<^verbatim>\<open>handleAddTask\<close> produces a task, which it does
  for every input as soon as the input names a category or a category exists, the task has
  status Todo, a non-empty title (\<^verbatim>\<open>'Untitled Task'\<close> when the input title is absent or
  empty, the input title otherwise), priority Medium when the input has none, and the new
  collection is the task followed by the old collection unchanged.
\<close>

theorem handleAddTask_defaults:
  "(truthy (p_category newTask) \<or> categories \<noteq> [] \<longrightarrow>
      (\<exists>task. handleAddTask uuid now categories newTask tasks = Inr (task # tasks)))
   \<and> (\<forall>tasks'. handleAddTask uuid now categories newTask tasks = Inr tasks' \<longrightarrow>
        tl tasks' = tasks
        \<and> tasks' \<noteq> []
        \<and> status (hd tasks') = TODO
        \<and> title (hd tasks') \<noteq> []
        \<and> (\<not> truthy (p_title newTask) \<longrightarrow> title (hd tasks') = ''Untitled Task'')
        \<and> (truthy (p_title newTask) \<longrightarrow> p_title newTask = Some (title (hd tasks')))
        \<and> (p_priority newTask = None \<longrightarrow> priority (hd tasks') = MEDIUM)
        \<and> (\<forall>p. p_priority newTask = Some p \<longrightarrow> priority (hd tasks') = p))"
proof -
  have produced: "\<exists>task. handleAddTask uuid now categories newTask tasks = Inr (task # tasks)"
    if "truthy (p_category newTask) \<or> categories \<noteq> []"
    using that by (cases categories) (auto simp: handleAddTask_def)
  have props: "tl tasks' = tasks
        \<and> tasks' \<noteq> []
        \<and> status (hd tasks') = TODO
        \<and> title (hd tasks') \<noteq> []
        \<and> (\<not> truthy (p_title newTask) \<longrightarrow> title (hd tasks') = ''Untitled Task'')
        \<and> (truthy (p_title newTask) \<longrightarrow> p_title newTask = Some (title (hd tasks')))
        \<and> (p_priority newTask = None \<longrightarrow> priority (hd tasks') = MEDIUM)
        \<and> (\<forall>p. p_priority newTask = Some p \<longrightarrow> priority (hd tasks') = p)"
    if "handleAddTask uuid now categories newTask tasks = Inr tasks'" for tasks'
  proof -
    from that obtain cat where tasks': "tasks' =
        \<lparr>task_id = uuid,
         title = orString (p_title newTask) ''Untitled Task'',
         description = Some (orString (p_description newTask) []),
         dueDate = Some (orString (p_dueDate newTask) []),
         startTime = None, endTime = None,
         priority = (case p_priority newTask of None \<Rightarrow> MEDIUM | Some p \<Rightarrow> p),
         status = TODO, category = cat,
         tags = (case p_tags newTask of None \<Rightarrow> [] | Some ts \<Rightarrow> ts),
         recurrence = (case p_recurrence newTask of None \<Rightarrow> NONE | Some r \<Rightarrow> r),
         createdAt = now\<rparr> # tasks"
      by (auto simp: handleAddTask_def split: sum.splits)
    have "title (hd tasks') \<noteq> []"
      unfolding tasks' using orString_nonempty [of "''Untitled Task''" "p_title newTask"] by simp
    then show ?thesis
      unfolding tasks' by (auto simp: orString_def truthy_def split: option.splits)
  qed
  from produced props show ?thesis by blast
qed

theorem handleAddTask_defaults_witness:
  "handleAddTask ''id-1'' 7 [\<lparr>cat_id = ''1'', name = ''Work'', color = ''bg-blue-500''\<rparr>]
      \<lparr>p_id = None, p_title = Some [], p_description = None, p_dueDate = None,
       p_startTime = None, p_endTime = None, p_priority = None, p_status = Some DONE,
       p_category = None, p_tags = None, p_recurrence = None, p_createdAt = None\<rparr>
      [exampleTask ''A'' ''2024-05-10T09:00'']
    = Inr [\<lparr>task_id = ''id-1'', title = ''Untitled Task'', description = Some [],
            dueDate = Some [], startTime = None, endTime = None, priority = MEDIUM,
            status = TODO, category = ''Work'', tags = [], recurrence = NONE, createdAt = 7\<rparr>,
           exampleTask ''A'' ''2024-05-10T09:00'']"
proof -
  define cats where "cats = [\<lparr>cat_id = ''1'', name = ''Work'', color = ''bg-blue-500''\<rparr>]"
  define nt where "nt = \<lparr>p_id = None, p_title = Some [], p_description = None, p_dueDate = None,
       p_startTime = None, p_endTime = None, p_priority = None, p_status = Some DONE,
       p_category = None, p_tags = None, p_recurrence = None, p_createdAt = None\<rparr>"
  note w = handleAddTask_defaults [of nt cats "''id-1''" 7 "[exampleTask ''A'' ''2024-05-10T09:00'']"]
  have "truthy (p_category nt) \<or> cats \<noteq> []" by (simp add: cats_def)
  with w [THEN conjunct1] obtain task where
    r: "handleAddTask ''id-1'' 7 cats nt [exampleTask ''A'' ''2024-05-10T09:00'']
          = Inr (task # [exampleTask ''A'' ''2024-05-10T09:00''])"
    by blast
  from w [THEN conjunct2, THEN spec, THEN mp, OF r]
  have "status task = TODO" "title task = ''Untitled Task''" "priority task = MEDIUM"
    by (simp_all add: nt_def truthy_def)
  moreover have "task = \<lparr>task_id = ''id-1'', title = title task, description = Some [],
            dueDate = Some [], startTime = None, endTime = None, priority = priority task,
            status = status task, category = ''Work'', tags = [], recurrence = NONE, createdAt = 7\<rparr>"
    using r by (auto simp: handleAddTask_def nt_def cats_def truthy_def orString_def)
  ultimately show ?thesis using r by (simp add: nt_def cats_def)
qed

lemma set_firstOccurrences [simp]: "set (firstOccurrences xs) = set xs"
  by (induction xs) auto

lemma distinct_firstOccurrences [simp]: "distinct (firstOccurrences xs)"
  by (induction xs) auto

lemma Object_keys_no_index:
  "\<forall>k \<in> set (map fst obj). \<not> isArrayIndex k \<Longrightarrow> Object_keys obj = map fst obj"
proof -
  assume a: "\<forall>k \<in> set (map fst obj). \<not> isArrayIndex k"
  then have "filter isArrayIndex (map fst obj) = []"
    by (simp add: filter_empty_conv)
  moreover from a have "filter (\<lambda>k. \<not> isArrayIndex k) (map fst obj) = map fst obj"
    by (simp add: filter_id_conv)
  ultimately show ?thesis by (simp add: Object_keys_def)
qed

lemma set_Object_keys [simp]: "set (Object_keys obj) = fst ` set obj"
  by (auto simp: Object_keys_def)

lemma filter_truthy_sortedTasks:
  "filter (\<lambda>t. truthy (dueDate t)) (sortedTasks parse tasks) = sortedTasks parse tasks"
  by (simp add: filter_id_conv set_sortedTasks)

lemma schedule_keys:
  assumes "renderScheduleView parse tz now tasks = Inr groups"
  shows "\<exists>grouped :: (string \<times> Task list) list.
       map fst grouped = firstOccurrences (map bucketKey (sortedTasks parse tasks))
     \<and> map dateStr groups = Object_keys grouped"
proof -
  from renderScheduleView_Inr [OF assms] obtain grouped
    where g: "groupAll [] (sortedTasks parse tasks) = Inr grouped"
      and k: "map dateStr groups = Object_keys grouped" by blast
  from groupAll_Inr [OF g] have
    "map fst grouped = firstOccurrences (map bucketKey (sortedTasks parse tasks))"
    by (simp add: filter_truthy_sortedTasks)
  with k show ?thesis by blast
qed

lemma renderScheduleView_total:
  assumes "\<forall>t \<in> set tasks. truthy (dueDate t) \<longrightarrow> bucketKey t \<notin> set ObjectPrototypeKeys"
  shows "\<exists>groups. renderScheduleView parse tz now tasks = Inr groups"
proof -
  have "\<forall>t \<in> set (sortedTasks parse tasks).
      truthy (dueDate t) \<longrightarrow> bucketKey t \<notin> set ObjectPrototypeKeys"
    using assms by (simp add: set_sortedTasks)
  from groupAll_total [OF this, of "[]"] show ?thesis
    by (auto simp: renderScheduleView_def Let_def)
qed

lemma renderScheduleView_TypeError:
  "renderScheduleView parse tz now tasks = Inl TypeError
     \<longleftrightarrow> (\<exists>t \<in> set tasks. truthy (dueDate t) \<and> bucketKey t \<in> set ObjectPrototypeKeys)"
proof
  assume l: "renderScheduleView parse tz now tasks = Inl TypeError"
  show "\<exists>t \<in> set tasks. truthy (dueDate t) \<and> bucketKey t \<in> set ObjectPrototypeKeys"
  proof (rule ccontr)
    assume "\<not> ?thesis"
    then have "\<forall>t \<in> set tasks. truthy (dueDate t) \<longrightarrow> bucketKey t \<notin> set ObjectPrototypeKeys"
      by blast
    from renderScheduleView_total [OF this, of parse tz now] l show False by auto
  qed
next
  assume "\<exists>t \<in> set tasks. truthy (dueDate t) \<and> bucketKey t \<in> set ObjectPrototypeKeys"
  then have "\<exists>t \<in> set (sortedTasks parse tasks).
      truthy (dueDate t) \<and> bucketKey t \<in> set ObjectPrototypeKeys"
    by (auto simp: set_sortedTasks)
  from groupAll_TypeError [OF this, of "[]"]
  show "renderScheduleView parse tz now tasks = Inl TypeError"
    by (simp add: renderScheduleView_def Let_def)
qed

text \<open>
  The Schedule view consults the parser only on the due dates of its tasks: two parsers
  that agree there give the same view.
\<close>

lemma insertBy_cong:
  "\<forall>y \<in> set ys. cmp x y = cmp' x y \<Longrightarrow> insertBy cmp x ys = insertBy cmp' x ys"
  by (induction ys) auto

lemma sortBy_cong:
  "\<forall>x \<in> set xs. \<forall>y \<in> set xs. cmp x y = cmp' x y \<Longrightarrow> sortBy cmp xs = sortBy cmp' xs"
proof (induction xs)
  case Nil
  show ?case by (simp add: sortBy_def)
next
  case (Cons x xs)
  then have ih: "sortBy cmp xs = sortBy cmp' xs" by simp
  have "insertBy cmp x (sortBy cmp' xs) = insertBy cmp' x (sortBy cmp' xs)"
    using Cons.prems by (intro insertBy_cong) simp
  with ih show ?case by (simp add: sortBy_def)
qed

lemma renderScheduleView_cong:
  assumes "\<forall>t \<in> set tasks. dueTime parse t = dueTime parse' t"
  shows "renderScheduleView parse tz now tasks = renderScheduleView parse' tz now tasks"
proof -
  have "sortedTasks parse tasks = sortedTasks parse' tasks"
    unfolding sortedTasks_def using assms
    by (intro sortBy_cong) (simp add: compareDue_def)
  then show ?thesis by (simp add: renderScheduleView_def)
qed

text \<open>
  C3 (amended). Schedule view grouping and ordering. For every parser and every task
  collection in which each present due date parses and no bucket key is an array index
  (a canonical decimal numeral such as \<^verbatim>\<open>2025\<close>) or the name of a property of
  \<^verbatim>\<open>Object.prototype\<close>, the Schedule view keeps exactly the tasks with a present due
  date, sorts them ascending by the time value of the due date with ties in input order,
  and groups them by bucket key, the groups in the order in which their keys first occur
  in the sorted list; within a group the tasks stand in sorted order, that is
  chronologically, not in input order. For the tasks due \<^verbatim>\<open>2024-05-10T09:00\<close>,
  \<^verbatim>\<open>2024-05-09T23:00\<close>, \<^verbatim>\<open>2024-05-10T01:00\<close> it produces the group 2024-05-09 with one
  task, then the group 2024-05-10 with the 01:00 task before the 09:00 task.
\<close>

theorem schedule_grouping_order:
  assumes parse: "\<forall>t \<in> set tasks. truthy (dueDate t) \<longrightarrow> dueTime parse t \<noteq> None"
    and idx: "\<forall>t \<in> set tasks. truthy (dueDate t) \<longrightarrow> \<not> isArrayIndex (bucketKey t)"
    and proto: "\<forall>t \<in> set tasks. truthy (dueDate t) \<longrightarrow> bucketKey t \<notin> set ObjectPrototypeKeys"
  shows "\<exists>groups. renderScheduleView parse tz now tasks = Inr groups
     \<and> mset (sortedTasks parse tasks) = mset (filter (\<lambda>t. truthy (dueDate t)) tasks)
     \<and> sorted (map (\<lambda>t. the (dueTime parse t)) (sortedTasks parse tasks))
     \<and> (\<forall>v. filter (\<lambda>t. dueTime parse t = Some v) (sortedTasks parse tasks)
             = filter (\<lambda>t. dueTime parse t = Some v) (filter (\<lambda>t. truthy (dueDate t)) tasks))
     \<and> map dateStr groups = firstOccurrences (map bucketKey (sortedTasks parse tasks))
     \<and> (\<forall>g \<in> set groups.
           groupTasks g = filter (\<lambda>t. bucketKey t = dateStr g) (sortedTasks parse tasks))"
proof -
  define xs where "xs = filter (\<lambda>t. truthy (dueDate t)) tasks"
  define f where "f = (\<lambda>t. the (dueTime parse t))"
  have some: "\<forall>x \<in> set xs. dueTime parse x \<noteq> None"
    using parse by (simp add: xs_def)
  have sort: "sortedTasks parse tasks = sort_key f xs"
    unfolding sortedTasks_def xs_def [symmetric] f_def by (rule sortBy_sort_key [OF some])
  have perm: "mset (sortedTasks parse tasks) = mset xs"
    by (simp add: sortedTasks_def xs_def)
  have asc: "sorted (map f (sortedTasks parse tasks))"
    unfolding sort by (rule sorted_sort_key)
  have stable: "filter (\<lambda>t. dueTime parse t = Some v) (sortedTasks parse tasks)
      = filter (\<lambda>t. dueTime parse t = Some v) xs" for v
  proof -
    have "filter (\<lambda>t. dueTime parse t = Some v) (sort_key f xs) = filter (\<lambda>t. f t = v) (sort_key f xs)"
      using some by (intro filter_cong) (auto simp: f_def)
    also have "\<dots> = filter (\<lambda>t. f t = v) xs" by (rule sort_key_stable)
    also have "\<dots> = filter (\<lambda>t. dueTime parse t = Some v) xs"
      using some by (intro filter_cong) (auto simp: f_def)
    finally show ?thesis by (simp only: sort)
  qed
  from renderScheduleView_total [OF proto] obtain groups
    where r: "renderScheduleView parse tz now tasks = Inr groups" by blast
  from schedule_keys [OF r] obtain grouped :: "(string \<times> Task list) list"
    where k: "map fst grouped = firstOccurrences (map bucketKey (sortedTasks parse tasks))"
      and d: "map dateStr groups = Object_keys grouped" by blast
  have "\<forall>k \<in> set (map fst grouped). \<not> isArrayIndex k"
    unfolding k using idx by (auto simp: set_sortedTasks)
  from Object_keys_no_index [OF this] d k
  have keys: "map dateStr groups = firstOccurrences (map bucketKey (sortedTasks parse tasks))"
    by simp
  have tasks_of: "groupTasks g = filter (\<lambda>t. bucketKey t = dateStr g) (sortedTasks parse tasks)"
    if "g \<in> set groups" for g
  proof -
    have "filter (\<lambda>t. truthy (dueDate t) \<and> bucketKey t = dateStr g) (sortedTasks parse tasks)
        = filter (\<lambda>t. bucketKey t = dateStr g) (sortedTasks parse tasks)"
      by (intro filter_cong) (auto simp: set_sortedTasks)
    with schedule_group_tasks [OF r that] show ?thesis by simp
  qed
  from r perm asc stable keys tasks_of show ?thesis
    unfolding xs_def f_def by blast
qed

lemma example_due_times:
  "dueTime (parseISOFormat 330) (exampleTask ''A'' ''2024-05-10T09:00'') = Some 1715311800000"
  "dueTime (parseISOFormat 330) (exampleTask ''B'' ''2024-05-09T23:00'') = Some 1715275800000"
  "dueTime (parseISOFormat 330) (exampleTask ''C'' ''2024-05-10T01:00'') = Some 1715283000000"
  by code_simp+

lemma example_keys:
  "bucketKey (exampleTask ''A'' ''2024-05-10T09:00'') = ''2024-05-10''"
  "bucketKey (exampleTask ''B'' ''2024-05-09T23:00'') = ''2024-05-09''"
  "bucketKey (exampleTask ''C'' ''2024-05-10T01:00'') = ''2024-05-10''"
  "isArrayIndex ''2024-05-10'' = False" "isArrayIndex ''2024-05-09'' = False"
  "''2024-05-10'' \<notin> set ObjectPrototypeKeys" "''2024-05-09'' \<notin> set ObjectPrototypeKeys"
  by code_simp+

lemma example_sorted:
  "sortedTasks (parseISOFormat 330) exampleTasks =
     [exampleTask ''B'' ''2024-05-09T23:00'', exampleTask ''C'' ''2024-05-10T01:00'',
      exampleTask ''A'' ''2024-05-10T09:00'']"
  by code_simp

theorem schedule_grouping_order_witness:
  "\<not> isl (renderScheduleView (parseISOFormat 330) 330 0 exampleTasks)
   \<and> map dateStr (projr (renderScheduleView (parseISOFormat 330) 330 0 exampleTasks)) = [''2024-05-09'', ''2024-05-10'']
   \<and> map groupTasks (projr (renderScheduleView (parseISOFormat 330) 330 0 exampleTasks))
       = [[exampleTask ''B'' ''2024-05-09T23:00''],
          [exampleTask ''C'' ''2024-05-10T01:00'', exampleTask ''A'' ''2024-05-10T09:00'']]"
proof -
  have p: "\<forall>t \<in> set exampleTasks. truthy (dueDate t) \<longrightarrow> dueTime (parseISOFormat 330) t \<noteq> None"
    by (simp add: exampleTasks_def example_due_times)
  have i: "\<forall>t \<in> set exampleTasks. truthy (dueDate t) \<longrightarrow> \<not> isArrayIndex (bucketKey t)"
    by (simp add: exampleTasks_def example_keys)
  have o: "\<forall>t \<in> set exampleTasks. truthy (dueDate t) \<longrightarrow> bucketKey t \<notin> set ObjectPrototypeKeys"
    by (simp add: exampleTasks_def example_keys)
  from schedule_grouping_order [OF p i o, of 330 0] obtain groups where
    r: "renderScheduleView (parseISOFormat 330) 330 0 exampleTasks = Inr groups"
    and k: "map dateStr groups = firstOccurrences (map bucketKey (sortedTasks (parseISOFormat 330) exampleTasks))"
    and g: "\<forall>g \<in> set groups.
           groupTasks g = filter (\<lambda>t. bucketKey t = dateStr g) (sortedTasks (parseISOFormat 330) exampleTasks)"
    by blast
  have keys: "map dateStr groups = [''2024-05-09'', ''2024-05-10'']"
    unfolding k example_sorted by (simp add: example_keys)
  then obtain g1 g2 where groups: "groups = [g1, g2]"
    and d: "dateStr g1 = ''2024-05-09''" "dateStr g2 = ''2024-05-10''"
    by (cases groups; cases "tl groups") auto
  have "groupTasks g1 = [exampleTask ''B'' ''2024-05-09T23:00'']"
    "groupTasks g2 = [exampleTask ''C'' ''2024-05-10T01:00'', exampleTask ''A'' ''2024-05-10T09:00'']"
    using g unfolding groups example_sorted by (simp_all add: d example_keys)
  with r keys show ?thesis by (simp add: groups)
qed

lemma example_day_list:
  "getTasksForDate exampleTasks 1715331600000
     = [exampleTask ''A'' ''2024-05-10T09:00'', exampleTask ''C'' ''2024-05-10T01:00'']"
  by code_simp

lemma example_schedule:
  "renderScheduleView (parseISOFormat 330) 330 0 exampleTasks =
     Inr [\<lparr>dateStr = ''2024-05-09'', displayDate = Some 1715193000000, isPast = False,
           groupTasks = [exampleTask ''B'' ''2024-05-09T23:00'']\<rparr>,
          \<lparr>dateStr = ''2024-05-10'', displayDate = Some 1715279400000, isPast = False,
           groupTasks = [exampleTask ''C'' ''2024-05-10T01:00'',
                         exampleTask ''A'' ''2024-05-10T09:00'']\<rparr>]"
  by code_simp

lemma example_schedule_any_engine:
  assumes "parse ''2024-05-10T09:00'' = parseISOFormat 330 ''2024-05-10T09:00''"
    and "parse ''2024-05-09T23:00'' = parseISOFormat 330 ''2024-05-09T23:00''"
    and "parse ''2024-05-10T01:00'' = parseISOFormat 330 ''2024-05-10T01:00''"
  shows "renderScheduleView parse 330 0 exampleTasks
     = renderScheduleView (parseISOFormat 330) 330 0 exampleTasks"
  by (rule renderScheduleView_cong)
    (simp add: exampleTasks_def exampleTask_def dueTime_def assms)

theorem schedule_example_counterexample:
  "exampleTasks =
     [exampleTask ''A'' ''2024-05-10T09:00'', exampleTask ''B'' ''2024-05-09T23:00'',
      exampleTask ''C'' ''2024-05-10T01:00'']
   \<and> map dateStr (projr (renderScheduleView (parseISOFormat 330) 330 0 exampleTasks)) = [''2024-05-09'', ''2024-05-10'']
   \<and> map groupTasks (projr (renderScheduleView (parseISOFormat 330) 330 0 exampleTasks))
       = [[exampleTask ''B'' ''2024-05-09T23:00''],
          [exampleTask ''C'' ''2024-05-10T01:00'', exampleTask ''A'' ''2024-05-10T09:00'']]
   \<and> getTasksForDate exampleTasks 1715331600000
       = [exampleTask ''A'' ''2024-05-10T09:00'', exampleTask ''C'' ''2024-05-10T01:00'']
   \<and> [exampleTask ''C'' ''2024-05-10T01:00'', exampleTask ''A'' ''2024-05-10T09:00'']
       \<noteq> [exampleTask ''A'' ''2024-05-10T09:00'', exampleTask ''C'' ''2024-05-10T01:00'']"
  by (simp add: example_schedule example_day_list) (simp add: exampleTasks_def exampleTask_def)








lemma schedule_prototype_key_raises:
  "parseISOFormat 330 ''toString'' = None"
  "renderScheduleView (parseISOFormat 330) 330 0 [exampleTask ''V'' ''toString''] = Inl TypeError"
  by code_simp+

lemma schedule_numeric_key_first:
  "map task_id (sortedTasks (parseISOFormat 330) [exampleTask ''P'' ''2024-06-01'', exampleTask ''Q'' ''2025''])
     = [''P'', ''Q'']"
  "map dateStr (projr (renderScheduleView (parseISOFormat 330) 330 0
      [exampleTask ''P'' ''2024-06-01'', exampleTask ''Q'' ''2025''])) = [''2025'', ''2024-06-01'']"
  by code_simp+

lemma split_append:
  "c \<notin> set p \<Longrightarrow> split c (p @ c # r) = p # split c r"
  by (induction p) (auto split: list.splits simp: split_nonempty)

lemma split_none: "c \<notin> set p \<Longrightarrow> split c p = [p]"
  by (induction p) (auto split: list.splits)

lemma digit_cases:
  fixes k :: int
  assumes "0 \<le> k" "k < 10"
  shows "k = 0 \<or> k = 1 \<or> k = 2 \<or> k = 3 \<or> k = 4 \<or> k = 5 \<or> k = 6 \<or> k = 7 \<or> k = 8 \<or> k = 9"
  using assms by presburger

lemma digitValue_digitChar:
  assumes "0 \<le> k" "k < 10"
  shows "digitValue (digitChar k) = k"
  using digit_cases [OF assms] by (auto simp: digitValue_def digitChar_def)

lemma decimalValue_snoc: "decimalValue (xs @ [c]) = 10 * decimalValue xs + digitValue c"
  by (simp add: decimalValue_def)

lemma decimalValue_padDigits: "decimalValue (padDigits n v) = v mod 10 ^ n"
proof (induction n arbitrary: v)
  case 0
  show ?case by (simp add: decimalValue_def)
next
  case (Suc n)
  have "decimalValue (padDigits (Suc n) v) = 10 * (v div 10 mod 10 ^ n) + v mod 10"
    by (simp add: decimalValue_snoc Suc digitValue_digitChar)
  also have "\<dots> = v mod (10 * 10 ^ n)"
    by (rule zmod_zmult2_eq [symmetric]) simp
  finally show ?case by simp
qed

lemma isDigit_padDigits: "list_all isDigit (padDigits n v)"
proof (induction n arbitrary: v)
  case 0
  show ?case by simp
next
  case (Suc n)
  have "isDigit (digitChar (v mod 10))"
    unfolding isDigit_def by (rule digitChar_digit) simp_all
  with Suc show ?case by simp
qed

lemma Number_padDigits:
  "0 \<le> v \<Longrightarrow> v < 10 ^ n \<Longrightarrow> Number (padDigits n v) = Some v"
  by (simp add: Number_def isDigit_padDigits decimalValue_padDigits)

lemma no_dash_padDigits: "CHR ''-'' \<notin> set (padDigits n v)"
  using padDigits_digits [of n v] by auto

lemma displayDateOf_formatted:
  assumes "0 \<le> y" "y \<le> 9999" "0 \<le> m" "m \<le> 99" "0 \<le> d" "d \<le> 99"
  shows "displayDateOf tz (padDigits 4 y @ ''-'' @ padDigits 2 m @ ''-'' @ padDigits 2 d)
     = Some (Date_ymd tz y (m - 1) d)"
proof -
  have "split CHR ''-'' (padDigits 4 y @ ''-'' @ padDigits 2 m @ ''-'' @ padDigits 2 d)
      = [padDigits 4 y, padDigits 2 m, padDigits 2 d]"
    using split_append [OF no_dash_padDigits] split_none [OF no_dash_padDigits] by simp
  moreover have "Number (padDigits 4 y) = Some y" "Number (padDigits 2 m) = Some m"
    "Number (padDigits 2 d) = Some d"
    using assms by (simp_all add: Number_padDigits)
  ultimately show ?thesis by (simp add: displayDateOf_def)
qed

lemma march_5_parts: "map Number (split CHR ''-'' ''2024-03-05'') = [Some 2024, Some 3, Some 5]"
  by code_simp

lemma march_5_fields:
  "getFullYear tz (Date_ymd tz 2024 2 5) = 2024"
  "getMonth tz (Date_ymd tz 2024 2 5) = 2"
  "getDate tz (Date_ymd tz 2024 2 5) = 5"
proof -
  have m: "(0::int) \<le> 2" "(2::int) < 12" by simp_all
  have d: "(1::int) \<le> 5" "5 \<le> daysInMonthOf tz 2024 2"
    by (simp_all add: daysInMonthOf_eq DaysInMonth_def monthStart_def)
  from Date_ymd_fields [OF m d] show "getFullYear tz (Date_ymd tz 2024 2 5) = 2024"
    "getMonth tz (Date_ymd tz 2024 2 5) = 2" "getDate tz (Date_ymd tz 2024 2 5) = 5"
    by (simp_all add: effectiveYear_def)
qed

text \<open>
  C7. Schedule display date: the display date of every group is built from the numbers
  in the group's key alone, never from the task's time stamp. A key \<^verbatim>\<open>YYYY-MM-DD\<close>
  naming a calendar day (of a year from 100 on) displays as the local date with that
  year, month and day, in every time zone; the key \<^verbatim>\<open>2024-03-05\<close> displays as March 5,
  2024.
\<close>

theorem schedule_display_date:
  "(\<forall>groups. renderScheduleView parse tz now tasks = Inr groups \<longrightarrow>
      (\<forall>g \<in> set groups.
         displayDate g = displayDateOf tz (dateStr g)
         \<and> (dateStr g = ''2024-03-05'' \<longrightarrow> displayDate g = Some (Date_ymd tz 2024 2 5))
         \<and> (\<forall>y m d. 100 \<le> y \<and> y \<le> 9999 \<and> 1 \<le> m \<and> m \<le> 12 \<and> 1 \<le> d
                \<and> d \<le> DaysInMonth (leapFlag y) (m - 1)
                \<and> dateStr g = padDigits 4 y @ ''-'' @ padDigits 2 m @ ''-'' @ padDigits 2 d
              \<longrightarrow> (\<exists>t. displayDate g = Some t \<and> getFullYear tz t = y
                        \<and> getMonth tz t = m - 1 \<and> getDate tz t = d))))
   \<and> getFullYear tz (Date_ymd tz 2024 2 5) = 2024
   \<and> getMonth tz (Date_ymd tz 2024 2 5) = 2
   \<and> getDate tz (Date_ymd tz 2024 2 5) = 5"
proof -
  have grp: "displayDate g = displayDateOf tz (dateStr g)
         \<and> (dateStr g = ''2024-03-05'' \<longrightarrow> displayDate g = Some (Date_ymd tz 2024 2 5))
         \<and> (\<forall>y m d. 100 \<le> y \<and> y \<le> 9999 \<and> 1 \<le> m \<and> m \<le> 12 \<and> 1 \<le> d
                \<and> d \<le> DaysInMonth (leapFlag y) (m - 1)
                \<and> dateStr g = padDigits 4 y @ ''-'' @ padDigits 2 m @ ''-'' @ padDigits 2 d
              \<longrightarrow> (\<exists>t. displayDate g = Some t \<and> getFullYear tz t = y
                        \<and> getMonth tz t = m - 1 \<and> getDate tz t = d))"
    if r: "renderScheduleView parse tz now tasks = Inr groups" and g: "g \<in> set groups" for groups g
  proof -
    from renderScheduleView_Inr [OF r] g
    have dd: "displayDate g = displayDateOf tz (dateStr g)" by blast
    have m5: "displayDate g = Some (Date_ymd tz 2024 2 5)" if "dateStr g = ''2024-03-05''"
      unfolding dd that displayDateOf_def march_5_parts by simp
    have gen: "\<exists>t. displayDate g = Some t \<and> getFullYear tz t = y
                        \<and> getMonth tz t = m - 1 \<and> getDate tz t = d"
      if h: "100 \<le> y \<and> y \<le> 9999 \<and> 1 \<le> m \<and> m \<le> 12 \<and> 1 \<le> d
                \<and> d \<le> DaysInMonth (leapFlag y) (m - 1)
                \<and> dateStr g = padDigits 4 y @ ''-'' @ padDigits 2 m @ ''-'' @ padDigits 2 d"
      for y m d
    proof -
      have mm: "0 \<le> m - 1" "m - 1 < 12" using h by simp_all
      have ey: "effectiveYear y = y" using h by (simp add: effectiveYear_def)
      have d31: "d \<le> 31"
        using h DaysInMonth_range [OF leapFlag_cases mm, of y] by linarith
      have dim: "d \<le> daysInMonthOf tz y (m - 1)"
        using h by (simp add: daysInMonthOf_eq [OF mm] ey)
      from h have ds: "dateStr g = padDigits 4 y @ ''-'' @ padDigits 2 m @ ''-'' @ padDigits 2 d"
        by blast
      have "displayDate g = Some (Date_ymd tz y (m - 1) d)"
        unfolding dd ds by (rule displayDateOf_formatted) (use h d31 in simp_all)
      moreover from h have "1 \<le> d" by simp
      note Date_ymd_fields [OF mm this dim]
      ultimately show ?thesis by (simp add: ey)
    qed
    show ?thesis
    proof (intro conjI impI allI)
      show "displayDate g = displayDateOf tz (dateStr g)" by (rule dd)
    next
      assume "dateStr g = ''2024-03-05''"
      then show "displayDate g = Some (Date_ymd tz 2024 2 5)" by (rule m5)
    next
      fix y m d
      assume "100 \<le> y \<and> y \<le> 9999 \<and> 1 \<le> m \<and> m \<le> 12 \<and> 1 \<le> d
                \<and> d \<le> DaysInMonth (leapFlag y) (m - 1)
                \<and> dateStr g = padDigits 4 y @ ''-'' @ padDigits 2 m @ ''-'' @ padDigits 2 d"
      then show "\<exists>t. displayDate g = Some t \<and> getFullYear tz t = y
                        \<and> getMonth tz t = m - 1 \<and> getDate tz t = d" by (rule gen)
    qed
  qed
  have "\<forall>groups. renderScheduleView parse tz now tasks = Inr groups \<longrightarrow>
      (\<forall>g \<in> set groups.
         displayDate g = displayDateOf tz (dateStr g)
         \<and> (dateStr g = ''2024-03-05'' \<longrightarrow> displayDate g = Some (Date_ymd tz 2024 2 5))
         \<and> (\<forall>y m d. 100 \<le> y \<and> y \<le> 9999 \<and> 1 \<le> m \<and> m \<le> 12 \<and> 1 \<le> d
                \<and> d \<le> DaysInMonth (leapFlag y) (m - 1)
                \<and> dateStr g = padDigits 4 y @ ''-'' @ padDigits 2 m @ ''-'' @ padDigits 2 d
              \<longrightarrow> (\<exists>t. displayDate g = Some t \<and> getFullYear tz t = y
                        \<and> getMonth tz t = m - 1 \<and> getDate tz t = d)))"
    by (intro allI impI ballI) (rule grp; assumption)
  with march_5_fields [of tz] show ?thesis by (intro conjI)
qed

lemma march_example:
  "renderScheduleView (parseISOFormat 330) 330 0 [exampleTask ''M'' ''2024-03-05T23:30:00-08:00''] =
     Inr [\<lparr>dateStr = ''2024-03-05'', displayDate = Some 1709577000000, isPast = False,
           groupTasks = [exampleTask ''M'' ''2024-03-05T23:30:00-08:00'']\<rparr>]"
  "dueTime (parseISOFormat 330) (exampleTask ''M'' ''2024-03-05T23:30:00-08:00'') = Some 1709710200000"
  "getDate 330 1709710200000 = 6"
  by code_simp+

theorem schedule_display_date_witness:
  "map displayDate (projr (renderScheduleView (parseISOFormat 330) 330 0
      [exampleTask ''M'' ''2024-03-05T23:30:00-08:00''])) = [Some (Date_ymd 330 2024 2 5)]
   \<and> getFullYear 330 (Date_ymd 330 2024 2 5) = 2024
   \<and> getMonth 330 (Date_ymd 330 2024 2 5) = 2
   \<and> getDate 330 (Date_ymd 330 2024 2 5) = 5
   \<and> dueTime (parseISOFormat 330) (exampleTask ''M'' ''2024-03-05T23:30:00-08:00'') = Some 1709710200000
   \<and> getDate 330 1709710200000 = 6"
proof -
  define g where "g = \<lparr>dateStr = ''2024-03-05'', displayDate = Some 1709577000000,
      isPast = False, groupTasks = [exampleTask ''M'' ''2024-03-05T23:30:00-08:00'']\<rparr>"
  note w = schedule_display_date [of "parseISOFormat 330" 330 0 "[exampleTask ''M'' ''2024-03-05T23:30:00-08:00'']"]
  have r: "renderScheduleView (parseISOFormat 330) 330 0 [exampleTask ''M'' ''2024-03-05T23:30:00-08:00''] = Inr [g]"
    by (simp only: march_example g_def)
  have "g \<in> set [g]" by simp
  from w [THEN conjunct1, THEN spec, THEN mp, OF r, THEN bspec, OF this]
  have "dateStr g = ''2024-03-05'' \<longrightarrow> displayDate g = Some (Date_ymd 330 2024 2 5)"
    by (rule conjunct2 [THEN conjunct1])
  then have "displayDate g = Some (Date_ymd 330 2024 2 5)" by (simp add: g_def)
  with w [THEN conjunct2] show ?thesis
    by (simp add: r march_example)
qed

end
